theory Spec2Isabelle
  imports Main "HOL-Library.Word" "HOL-Library.Multiset"
begin

section \<open>Basic data of the JSON-RPC client\<close>

text \<open>
  \<open>common.Hash\<close> is a 32-byte array and \<open>common.Address\<close> a 20-byte array; both are
  compared with \<open>==\<close> as values. \<open>json.RawMessage\<close> is a byte string. A Go pointer that may
  be \<open>nil\<close> is an \<open>option\<close>, and a Go slice, which may be \<open>nil\<close> as well, is a
  \<open>list option\<close>.
\<close>

type_synonym Hash = "256 word"
type_synonym Address = "160 word"
type_synonym RawMessage = string
type_synonym 'a slice = "'a list option"

definition len :: "'a slice \<Rightarrow> nat" where
  "len s = (case s of None \<Rightarrow> 0 | Some xs \<Rightarrow> length xs)"

definition elems :: "'a slice \<Rightarrow> 'a list" where
  "elems s = (case s of None \<Rightarrow> [] | Some xs \<Rightarrow> xs)"

text \<open>
  The errors of the package. \<open>NotFound\<close> is \<open>ethereum.NotFound\<close> and \<open>ErrNoResult\<close> is
  \<open>rpc.ErrNoResult\<close>, the two sentinel values the pool compares against. \<open>Errorf\<close> carries
  the text of a \<open>fmt.Errorf\<close> with no argument; the formatted errors of \<open>rpccall.go\<close> carry
  the hashes they print. \<open>Remote\<close> is any other error handed back by a transport or a
  decoder; \<open>NilDereference\<close> and \<open>IndexOutOfRange\<close> are the run-time panics of reading
  through a nil pointer and of indexing a slice out of range.
\<close>

datatype error =
    NotFound
  | ErrNoResult
  | Errorf string
  | NullHeader Hash
  | WrongHeader Hash
  | NullReceipt Hash
  | ReceiptNotInBlock Hash Hash
  | Remote string
  | NilDereference
  | IndexOutOfRange

section \<open>Hex encoding of numbers (\<open>hexutil\<close>)\<close>

definition hexchars :: string where
  "hexchars = ''0123456789abcdef''"

definition hexdigit :: "nat \<Rightarrow> char" where
  "hexdigit d = hexchars ! d"

text \<open>\<open>strconv.AppendUint(_, n, 16)\<close> and \<open>big.Int.Text(16)\<close> on a non-negative number:
  the digits of \<open>n\<close> in base 16, most significant first, a single \<open>0\<close> for zero.\<close>

fun hex_of_nat :: "nat \<Rightarrow> string" where
  "hex_of_nat n = (if n < 16 then [hexdigit n] else hex_of_nat (n div 16) @ [hexdigit (n mod 16)])"

declare hex_of_nat.simps [simp del]

definition Text16 :: "int \<Rightarrow> string" where
  "Text16 x = (if x < 0 then ''-'' @ hex_of_nat (nat (- x)) else hex_of_nat (nat x))"

text \<open>\<open>hexutil.EncodeBig\<close>: \<open>0x0\<close> for zero, \<open>0x\<close> and the digits for a positive number,
  \<open>-0x\<close> and the digits of the absolute value for a negative one.\<close>

definition EncodeBig :: "int \<Rightarrow> string" where
  "EncodeBig bigint =
     (if sgn bigint = 0 then ''0x0''
      else if sgn bigint > 0 then ''0x'' @ Text16 bigint
      else ''-0x'' @ tl (Text16 bigint))"

text \<open>\<open>hexutil.EncodeUint64\<close>; the argument is a \<open>uint64\<close>.\<close>

definition EncodeUint64 :: "64 word \<Rightarrow> string" where
  "EncodeUint64 i = ''0x'' @ hex_of_nat (unat i)"

text \<open>Reading a digit string back, most significant digit first.\<close>

fun index_of :: "'a \<Rightarrow> 'a list \<Rightarrow> nat" where
  "index_of x [] = 0"
| "index_of x (y # ys) = (if x = y then 0 else Suc (index_of x ys))"

definition hexval :: "char \<Rightarrow> nat" where
  "hexval c = index_of c hexchars"

definition hex_value :: "string \<Rightarrow> nat" where
  "hex_value ds = foldl (\<lambda>a c. 16 * a + hexval c) 0 ds"

text \<open>A minimal big-endian hex numeral: digits only, at least one, and no leading zero
  except for the numeral \<open>0\<close> itself.\<close>

definition minimal_hex :: "string \<Rightarrow> bool" where
  "minimal_hex ds \<longleftrightarrow> ds \<noteq> [] \<and> list_all (\<lambda>c. c \<in> set hexchars) ds \<and> (hd ds = CHR ''0'' \<longrightarrow> ds = ''0'')"

section \<open>Block-number arguments (\<open>rpccall.go\<close>)\<close>

text \<open>\<open>toBlockNumArg\<close>; the argument is a \<open>*big.Int\<close>.\<close>

definition toBlockNumArg :: "int option \<Rightarrow> string" where
  "toBlockNumArg number =
     (case number of
        None \<Rightarrow> ''latest''
      | Some n \<Rightarrow> (let pending = (- 1 :: int) in
                   if n = pending then ''pending'' else EncodeBig n))"

section \<open>Headers, transactions, receipts and blocks (\<open>types\<close>)\<close>

text \<open>
  The fields of \<open>Header\<close> that \<open>block.go\<close> reads or copies by hand. Big integers behind a
  pointer are \<open>int option\<close>. The scalar fields that \<open>CopyHeader\<close> copies with the struct
  assignment stay in the extension of the record.
\<close>

record Header =
  h_Hash :: Hash
  h_ParentHash :: Hash
  h_Number :: "int option"
  h_Difficulty :: "int option"
  h_BaseFee :: "int option"
  h_Extra :: "8 word list"
  h_WithdrawalsHash :: "Hash option"
  h_ExcessBlobGas :: "64 word option"
  h_BlobGasUsed :: "64 word option"
  h_ParentBeaconRoot :: "Hash option"

text \<open>\<open>CopyHeader\<close>: a deep copy. The copy of a nil \<open>Difficulty\<close> or \<open>Number\<close> is a fresh
  zero; every other field keeps its value.\<close>

definition CopyHeader :: "Header \<Rightarrow> Header" where
  "CopyHeader h =
     h\<lparr>h_Difficulty := Some (case h_Difficulty h of None \<Rightarrow> 0 | Some d \<Rightarrow> d),
       h_Number := Some (case h_Number h of None \<Rightarrow> 0 | Some n \<Rightarrow> n)\<rparr>"

text \<open>\<open>txData\<close>, of which only \<open>Hash\<close> is read by the functions below.\<close>

record Transaction =
  tx_BlockHash :: Hash
  tx_BlockNumber :: "int option"
  tx_From :: Address
  tx_Hash :: Hash
  tx_Nonce :: "64 word"
  tx_To :: "Address option"
  tx_TxIndex :: "64 word"
  tx_Value :: "int option"

record Receipt =
  r_BlockHash :: Hash
  r_BlockNumber :: "int option"
  r_TransactionIndex :: "64 word"
  r_TransactionHash :: Hash
  r_GasUsed :: "64 word"
  r_Status :: "64 word"

typedecl Withdrawal

record Body =
  Transactions :: "Transaction option slice"
  Uncles :: "Header option slice"

record compactBody =
  c_Transactions :: "Hash slice"
  c_Uncles :: "Hash slice"

record Block =
  header :: "Header option"
  body :: "Body option"
  compact :: "compactBody option"
  withdrawals :: "Withdrawal slice"

definition NewBlockWithHeader :: "Header option \<Rightarrow> Block" where
  "NewBlockWithHeader h = \<lparr>header = h, body = None, compact = None, withdrawals = None\<rparr>"

definition WithCompactBody :: "Block \<Rightarrow> Hash slice \<Rightarrow> Hash slice \<Rightarrow> Block" where
  "WithCompactBody b transactions uncles =
     \<lparr>header = header b, body = None,
      compact = Some \<lparr>c_Transactions = Some (elems transactions), c_Uncles = Some (elems uncles)\<rparr>,
      withdrawals = None\<rparr>"

text \<open>
  \<open>WithBody\<close> builds a new \<open>block\<close> from the transactions and the uncles, reading
  \<open>tx.Hash()\<close> and \<open>uncle.Hash\<close> through each pointer (a nil element panics), and then
  returns the receiver \<open>b\<close>.
\<close>

definition WithBody :: "Block \<Rightarrow> Transaction option slice \<Rightarrow> Header option slice \<Rightarrow> error + Block" where
  "WithBody b transactions uncles =
     (case those (elems transactions) of
        None \<Rightarrow> Inl NilDereference
      | Some txs \<Rightarrow>
          (case those (elems uncles) of
             None \<Rightarrow> Inl NilDereference
           | Some us \<Rightarrow>
               (let block = \<lparr>header = header b,
                              body = Some \<lparr>Transactions = Some (map Some txs),
                                          Uncles = Some (map (\<lambda>u. Some (CopyHeader u)) us)\<rparr>,
                              compact = Some \<lparr>c_Transactions = Some (map tx_Hash txs),
                                             c_Uncles = Some (map h_Hash us)\<rparr>,
                              withdrawals = None\<rparr>
                in Inr b)))"

definition WithWithdrawals :: "Block \<Rightarrow> Withdrawal slice \<Rightarrow> Block" where
  "WithWithdrawals b ws =
     \<lparr>header = header b, body = body b, compact = compact b,
      withdrawals = (if len ws > 0 then Some (elems ws) else None)\<rparr>"

section \<open>The \<open>rpcCaller\<close> interface\<close>

text \<open>
  An argument of an RPC call (\<open>interface{}\<close> in the source) is a hash, a string or a
  boolean in the calls made here. A \<open>rpc.BatchElem\<close> has a method, its arguments, the
  place the result is decoded into (a nil pointer until the reply is stored) and the error
  of the element.
\<close>

datatype arg = ArgHash Hash | ArgString string | ArgBool bool

record 'r BatchElem =
  Method :: string
  Args :: "arg list"
  Result :: "'r option"
  Error :: "error option"

text \<open>
  An implementation of \<open>rpcCaller\<close> over a remote state \<open>'s\<close>. \<open>Call\<close> returns an error or
  the raw message it stored in the result. \<open>BatchCall\<close> returns its own error and, for
  each position of the batch, what it stored in the result and in the error of that
  element; the batch keeps its length, methods and arguments.
\<close>

record ('s, 'r) rpcCaller =
  Call :: "'s \<Rightarrow> string \<Rightarrow> arg list \<Rightarrow> 's \<times> (error + RawMessage)"
  BatchCall :: "'s \<Rightarrow> 'r BatchElem list \<Rightarrow> 's \<times> error option \<times> (nat \<Rightarrow> 'r option \<times> error option)"

text \<open>The requests handed to the caller are recorded in order, next to its state.\<close>

datatype 'r request = CallReq string "arg list" | BatchReq "'r BatchElem list"

record ('s, 'r) world =
  remote :: 's
  issued :: "'r request list"

definition store_replies :: "'r BatchElem list \<Rightarrow> (nat \<Rightarrow> 'r option \<times> error option) \<Rightarrow> 'r BatchElem list" where
  "store_replies batch reply =
     map (\<lambda>(i, e). e\<lparr>Result := fst (reply i), Error := snd (reply i)\<rparr>) (enumerate 0 batch)"

definition client_Call ::
  "('s, 'r) rpcCaller \<Rightarrow> ('s, 'r) world \<Rightarrow> string \<Rightarrow> arg list \<Rightarrow> ('s, 'r) world \<times> (error + RawMessage)" where
  "client_Call client w method args =
     (case Call client (remote w) method args of
        (s, res) \<Rightarrow> (\<lparr>remote = s, issued = issued w @ [CallReq method args]\<rparr>, res))"

definition client_BatchCall ::
  "('s, 'r) rpcCaller \<Rightarrow> ('s, 'r) world \<Rightarrow> 'r BatchElem list \<Rightarrow>
     ('s, 'r) world \<times> error option \<times> 'r BatchElem list" where
  "client_BatchCall client w batch =
     (case BatchCall client (remote w) batch of
        (s, err, reply) \<Rightarrow>
          (\<lparr>remote = s, issued = issued w @ [BatchReq batch]\<rparr>, err, store_replies batch reply))"

section \<open>Block and receipt assembly (\<open>rpccall.go\<close>)\<close>

definition getBatchErr :: "'r BatchElem list \<Rightarrow> error option" where
  "getBatchErr batch = (case filter (\<lambda>elem. Error elem \<noteq> None) batch of [] \<Rightarrow> None | elem # _ \<Rightarrow> Error elem)"

text \<open>
  The JSON decoders (\<open>encoding/json\<close> with the generated \<open>UnmarshalJSON\<close> methods) are
  not part of the package sources; \<open>getBlock\<close> takes them as a parameter. The two anonymous
  \<open>resp\<close> structs of \<open>getBlock\<close> are the records \<open>fullResp\<close> and \<open>compactResp\<close>.
\<close>

record fullResp =
  f_Uncles :: "Hash slice"
  f_Transactions :: "Transaction option slice"
  f_Withdrawals :: "Withdrawal slice"

record compactResp =
  k_Uncles :: "Hash slice"
  k_Transactions :: "Hash slice"
  k_Withdrawals :: "Withdrawal slice"

record codec =
  unmarshalHeader :: "RawMessage \<Rightarrow> error + Header option"
  unmarshalFull :: "RawMessage \<Rightarrow> error + fullResp"
  unmarshalCompact :: "RawMessage \<Rightarrow> error + compactResp"

text \<open>The batch \<open>getBlockUncles\<close> builds: one element per uncle hash, keyed by the hash of
  the block and the index of the uncle.\<close>

definition uncleBatch :: "Hash \<Rightarrow> nat \<Rightarrow> Header BatchElem list" where
  "uncleBatch blockHash n =
     map (\<lambda>idx. \<lparr>Method = ''eth_getUncleByBlockHashAndIndex'',
                  Args = [ArgHash blockHash, ArgString (EncodeUint64 (of_nat idx))],
                  Result = None, Error = None\<rparr>) [0..<n]"

text \<open>The validation loop of \<open>getBlockUncles\<close> over the positions of the batch.\<close>

fun checkUncles :: "(Hash \<times> Header BatchElem) list \<Rightarrow> error option" where
  "checkUncles [] = None"
| "checkUncles ((hash, elem) # rest) =
     (case Error elem of
        Some err \<Rightarrow> Some err
      | None \<Rightarrow>
          (case Result elem of
             None \<Rightarrow> Some (NullHeader hash)
           | Some uncle \<Rightarrow>
               if h_Hash uncle \<noteq> hash then Some (WrongHeader hash) else checkUncles rest))"

definition getBlockUncles ::
  "('s, Header) rpcCaller \<Rightarrow> ('s, Header) world \<Rightarrow> Hash \<Rightarrow> Hash slice \<Rightarrow>
     ('s, Header) world \<times> (error + Header option slice)" where
  "getBlockUncles client w blockHash hashes =
     (if len hashes = 0 then (w, Inr None)
      else
        (case client_BatchCall client w (uncleBatch blockHash (len hashes)) of
           (w1, Some err, batch) \<Rightarrow> (w1, Inl err)
         | (w1, None, batch) \<Rightarrow>
             (case checkUncles (zip (elems hashes) batch) of
                Some err \<Rightarrow> (w1, Inl err)
              | None \<Rightarrow> (w1, Inr (Some (map Result batch))))))"

definition getBlock ::
  "codec \<Rightarrow> ('s, Header) rpcCaller \<Rightarrow> ('s, Header) world \<Rightarrow> string \<Rightarrow> arg \<Rightarrow> bool \<Rightarrow>
     ('s, Header) world \<times> (error + Block)" where
  "getBlock cd client w method numOrHash fullBlock =
     (case client_Call client w method [numOrHash, ArgBool fullBlock] of
        (w1, Inl err) \<Rightarrow> (w1, Inl err)
      | (w1, Inr raw) \<Rightarrow>
          if length raw = 0 then (w1, Inl NotFound)
          else
            (case unmarshalHeader cd raw of
               Inl err \<Rightarrow> (w1, Inl err)
             | Inr hdr \<Rightarrow>
                 if fullBlock then
                   (case unmarshalFull cd raw of
                      Inl err \<Rightarrow> (w1, Inl err)
                    | Inr resp \<Rightarrow>
                        (case hdr of
                           None \<Rightarrow> (w1, Inl NilDereference)
                         | Some h \<Rightarrow>
                             (case getBlockUncles client w1 (h_Hash h) (f_Uncles resp) of
                                (w2, Inl err) \<Rightarrow> (w2, Inl err)
                              | (w2, Inr uncles) \<Rightarrow>
                                  (case WithBody (NewBlockWithHeader hdr) (f_Transactions resp) uncles of
                                     Inl err \<Rightarrow> (w2, Inl err)
                                   | Inr b \<Rightarrow> (w2, Inr (WithWithdrawals b (f_Withdrawals resp)))))))
                 else
                   (case unmarshalCompact cd raw of
                      Inl err \<Rightarrow> (w1, Inl err)
                    | Inr resp \<Rightarrow>
                        (w1, Inr (WithWithdrawals
                                    (WithCompactBody (NewBlockWithHeader hdr) (k_Transactions resp) (k_Uncles resp))
                                    (k_Withdrawals resp))))))"

text \<open>\<open>RpcConnectionPool.BlockByHash\<close> and \<open>BlockByNumber\<close>, with the pool as the caller.\<close>

definition BlockByHash ::
  "codec \<Rightarrow> ('s, Header) rpcCaller \<Rightarrow> ('s, Header) world \<Rightarrow> Hash \<Rightarrow> bool \<Rightarrow>
     ('s, Header) world \<times> (error + Block)" where
  "BlockByHash cd p w hash fullBlock = getBlock cd p w ''eth_getBlockByHash'' (ArgHash hash) fullBlock"

definition BlockByNumber ::
  "codec \<Rightarrow> ('s, Header) rpcCaller \<Rightarrow> ('s, Header) world \<Rightarrow> int option \<Rightarrow> bool \<Rightarrow>
     ('s, Header) world \<times> (error + Block)" where
  "BlockByNumber cd p w number fullBlock =
     getBlock cd p w ''eth_getBlockByNumber'' (ArgString (toBlockNumArg number)) fullBlock"

definition rpcRequestBatchSize :: nat where
  "rpcRequestBatchSize = 100"

definition receiptBatch :: "Hash list \<Rightarrow> Receipt BatchElem list" where
  "receiptBatch txHashes =
     map (\<lambda>txHash. \<lparr>Method = ''eth_getTransactionReceipt'', Args = [ArgHash txHash],
                     Result = None, Error = None\<rparr>) txHashes"

fun checkReceipts :: "(Hash \<times> Receipt BatchElem) list \<Rightarrow> error option" where
  "checkReceipts [] = None"
| "checkReceipts ((txHash, elem) # rest) =
     (case Error elem of
        Some err \<Rightarrow> Some err
      | None \<Rightarrow>
          (case Result elem of
             None \<Rightarrow> Some (NullReceipt txHash)
           | Some receipt \<Rightarrow> checkReceipts rest))"

definition batchGetTransactionReceipt ::
  "('s, Receipt) rpcCaller \<Rightarrow> ('s, Receipt) world \<Rightarrow> Hash slice \<Rightarrow>
     ('s, Receipt) world \<times> (error + Receipt option slice)" where
  "batchGetTransactionReceipt client w txHashes =
     (let receipts = Some (replicate (len txHashes) None) in
      if len txHashes = 0 then (w, Inr receipts)
      else
        (case client_BatchCall client w (receiptBatch (elems txHashes)) of
           (w1, Some err, batch) \<Rightarrow> (w1, Inl err)
         | (w1, None, batch) \<Rightarrow>
             (case checkReceipts (zip (elems txHashes) batch) of
                Some err \<Rightarrow> (w1, Inl err)
              | None \<Rightarrow> (w1, Inr (Some (map Result batch))))))"

text \<open>The chunk loop of \<open>getBlockReceiptsByHashes\<close>, over the values \<open>0 .. batchCount - 1\<close>
  of \<open>i\<close>; \<open>txHashes[start:end]\<close> is \<open>take (end - start) (drop start txHashes)\<close>, the bounds
  being in range by the computation of \<open>end\<close>.\<close>

fun receiptChunks ::
  "('s, Receipt) rpcCaller \<Rightarrow> Hash list \<Rightarrow> ('s, Receipt) world \<Rightarrow> Receipt option list \<Rightarrow> nat list \<Rightarrow>
     ('s, Receipt) world \<times> (error + Receipt option list)" where
  "receiptChunks client txHashes w ret [] = (w, Inr ret)"
| "receiptChunks client txHashes w ret (i # is) =
     (let start = i * rpcRequestBatchSize;
          end0 = start + rpcRequestBatchSize;
          end1 = (if end0 > length txHashes then length txHashes else end0)
      in case batchGetTransactionReceipt client w (Some (take (end1 - start) (drop start txHashes))) of
           (w1, Inl err) \<Rightarrow> (w1, Inl err)
         | (w1, Inr receipts) \<Rightarrow> receiptChunks client txHashes w1 (ret @ elems receipts) is)"

text \<open>The closing loop that compares the block hash of every receipt.\<close>

fun checkBlockHash :: "Hash \<Rightarrow> Receipt option list \<Rightarrow> error option" where
  "checkBlockHash blockHash [] = None"
| "checkBlockHash blockHash (None # rest) = Some NilDereference"
| "checkBlockHash blockHash (Some receipt # rest) =
     (if r_BlockHash receipt \<noteq> blockHash
      then Some (ReceiptNotInBlock (r_TransactionHash receipt) blockHash)
      else checkBlockHash blockHash rest)"

definition getBlockReceiptsByHashes ::
  "('s, Receipt) rpcCaller \<Rightarrow> ('s, Receipt) world \<Rightarrow> Hash \<Rightarrow> Hash slice \<Rightarrow>
     ('s, Receipt) world \<times> (error + Receipt option slice)" where
  "getBlockReceiptsByHashes client w blockHash txHashes =
     (if len txHashes \<le> rpcRequestBatchSize then batchGetTransactionReceipt client w txHashes
      else
        (let batchCount = (len txHashes + rpcRequestBatchSize - 1) div rpcRequestBatchSize
         in case receiptChunks client (elems txHashes) w [] [0..<batchCount] of
              (w1, Inl err) \<Rightarrow> (w1, Inl err)
            | (w1, Inr ret) \<Rightarrow>
                (case checkBlockHash blockHash ret of
                   Some err \<Rightarrow> (w1, Inl err)
                 | None \<Rightarrow> (w1, Inr (Some ret)))))"

text \<open>
  Two notions used to state what the receipt functions do. \<open>chunks_of k xs\<close> follows the
  words of the specification: the consecutive chunks of at most \<open>k\<close> elements of \<open>xs\<close>, of
  which there are \<open>\<lceil>length xs / k\<rceil>\<close>. \<open>serve client s bs\<close> is what the caller answers when
  it is handed the batches \<open>bs\<close> one after the other from the state \<open>s\<close>: for each batch its
  error and the batch with the replies stored.
\<close>

definition chunks_of :: "nat \<Rightarrow> 'a list \<Rightarrow> 'a list list" where
  "chunks_of k xs = map (\<lambda>i. take k (drop (i * k) xs)) [0..<(length xs + k - 1) div k]"

fun serve ::
  "('s, 'r) rpcCaller \<Rightarrow> 's \<Rightarrow> 'r BatchElem list list \<Rightarrow> 's \<times> (error option \<times> 'r BatchElem list) list" where
  "serve client s [] = (s, [])"
| "serve client s (b # bs) =
     (case BatchCall client s b of
        (s1, err, reply) \<Rightarrow>
          (case serve client s1 bs of (s2, rs) \<Rightarrow> (s2, (err, store_replies b reply) # rs)))"

text \<open>A served batch is good when the call returned no error and every element came
  back with no error and a result that is not null.\<close>

definition good_batch :: "error option \<times> 'r BatchElem list \<Rightarrow> bool" where
  "good_batch r \<longleftrightarrow> fst r = None \<and> list_all (\<lambda>e. Error e = None \<and> Result e \<noteq> None) (snd r)"

section \<open>Endpoints and the connection pool\<close>

text \<open>
  \<open>ETHClient\<close>. The transport (the field \<open>client\<close>, a \<open>*rpc.Client\<close> that is nil until
  \<open>connect\<close> succeeds) is the field \<open>rpc_client\<close> and is identified by a number; \<open>latency\<close> is a \<open>time.Duration\<close>, a count of nanoseconds.
\<close>

record ETHClient =
  url :: string
  rpc_client :: "nat option"
  networkId :: string
  version :: string
  latency :: int

text \<open>
  What one connection attempt meets on the network: the outcome of \<open>rpc.DialContext\<close>,
  the answer to \<open>net_version\<close>, the time that call took, and the answer to
  \<open>web3_clientVersion\<close>.
\<close>

record probe =
  dialed :: "error + nat"
  net_version :: "error + string"
  elapsed :: int
  web3_clientVersion :: "error + string"

definition connect :: "probe \<Rightarrow> ETHClient \<Rightarrow> ETHClient \<times> error option" where
  "connect pr ec =
     (case dialed pr of
        Inl err \<Rightarrow> (ec, Some err)
      | Inr c \<Rightarrow>
          (case net_version pr of
             Inl err \<Rightarrow> (ec, Some err)
           | Inr nid \<Rightarrow>
               (let ec1 = ec\<lparr>networkId := nid, latency := elapsed pr\<rparr>
                in case web3_clientVersion pr of
                     Inl err \<Rightarrow> (ec1, Some err)
                   | Inr v \<Rightarrow> (ec1\<lparr>version := v, rpc_client := Some c\<rparr>, None))))"

definition DialContext :: "probe \<Rightarrow> string \<Rightarrow> error + ETHClient" where
  "DialContext pr u =
     (case connect pr \<lparr>url = u, rpc_client = None, networkId = [], version = [], latency = 0\<rparr> of
        (ec, Some err) \<Rightarrow> Inl err
      | (ec, None) \<Rightarrow> Inr ec)"

text \<open>\<open>RpcConnectionPool\<close>: the clients and, in a parallel slice, the status of each
  (\<open>0\<close> free, \<open>1\<close> busy). The quit channel carries no data.\<close>

record RpcConnectionPool =
  clients :: "ETHClient list"
  status :: "int list"

definition NewRpcConnectionPool :: "ETHClient list \<Rightarrow> RpcConnectionPool" where
  "NewRpcConnectionPool cs = \<lparr>clients = cs, status = replicate (length cs) 0\<rparr>"

definition Size :: "RpcConnectionPool \<Rightarrow> nat" where
  "Size p = length (clients p)"

text \<open>
  \<open>sort.Slice\<close> promises a permutation of the slice in which no element is \<open>less\<close> than
  one before it, and nothing about the order of elements neither of which is \<open>less\<close> than
  the other. It is modelled by insertion, which is what the library runs on short slices;
  the theorems below rely only on the promise.
\<close>

fun insert_less :: "('a \<Rightarrow> 'a \<Rightarrow> bool) \<Rightarrow> 'a \<Rightarrow> 'a list \<Rightarrow> 'a list" where
  "insert_less lt x [] = [x]"
| "insert_less lt x (y # ys) = (if lt x y then x # y # ys else y # insert_less lt x ys)"

definition sort_Slice :: "('a \<Rightarrow> 'a \<Rightarrow> bool) \<Rightarrow> 'a list \<Rightarrow> 'a list" where
  "sort_Slice lt xs = foldr (insert_less lt) xs []"

text \<open>
  \<open>SetupConnectionPool\<close>. Every URL is dialled by a goroutine of its own, which appends
  its client to \<open>clients\<close> under the lock when the dial succeeds and leaves nothing when it
  fails. \<open>probes i\<close> is what the goroutine of the \<open>i\<close>-th URL meets, and \<open>finished\<close> is the
  order in which the goroutines come to the end of their work.
\<close>

definition dialed_clients :: "(nat \<Rightarrow> probe) \<Rightarrow> string list \<Rightarrow> nat \<Rightarrow> ETHClient list" where
  "dialed_clients probes urls i =
     (if i < length urls
      then (case DialContext (probes i) (urls ! i) of Inl err \<Rightarrow> [] | Inr c \<Rightarrow> [c])
      else [])"

definition SetupConnectionPool :: "(nat \<Rightarrow> probe) \<Rightarrow> nat list \<Rightarrow> string list \<Rightarrow> error + RpcConnectionPool" where
  "SetupConnectionPool probes finished urls =
     (let cs = concat (map (dialed_clients probes urls) finished)
      in if length cs > 0
         then Inr (NewRpcConnectionPool (sort_Slice (\<lambda>a b. latency a < latency b) cs))
         else Inl (Errorf ''no connection established''))"

text \<open>
  The transports of the endpoints over a network state \<open>'n\<close>: \<open>CallContext\<close> and
  \<open>BatchCallContext\<close> of \<open>rpc.Client\<close>, for the transport with the given number.
\<close>

record ('n, 'r) transport =
  CallContext :: "'n \<Rightarrow> nat \<Rightarrow> string \<Rightarrow> arg list \<Rightarrow> 'n \<times> (error + 'r)"
  BatchCallContext ::
    "'n \<Rightarrow> nat \<Rightarrow> 'r BatchElem list \<Rightarrow> 'n \<times> error option \<times> (nat \<Rightarrow> 'r option \<times> error option)"

definition ETHClient_Call ::
  "('n, 'r) transport \<Rightarrow> 'n \<Rightarrow> ETHClient \<Rightarrow> string \<Rightarrow> arg list \<Rightarrow> 'n \<times> (error + 'r)" where
  "ETHClient_Call t n ec method params =
     (case rpc_client ec of
        None \<Rightarrow> (n, Inl NilDereference)
      | Some c \<Rightarrow> CallContext t n c method params)"

definition ETHClient_BatchCall ::
  "('n, 'r) transport \<Rightarrow> 'n \<Rightarrow> ETHClient \<Rightarrow> 'r BatchElem list \<Rightarrow> 'n \<times> error option \<times> 'r BatchElem list" where
  "ETHClient_BatchCall t n ec batch =
     (case rpc_client ec of
        None \<Rightarrow> (n, Some NilDereference, batch)
      | Some c \<Rightarrow>
          (case BatchCallContext t n c batch of
             (n1, err, reply) \<Rightarrow> (n1, err, store_replies batch reply)))"

text \<open>
  The state a call of the pool runs in: the pool with its status slice, the indices for
  which a \<open>cooldown\<close> goroutine has been started, the state of the network, and a record of
  the endpoints the call went to with the error each returned.
\<close>

record 'n pool_world =
  pool :: RpcConnectionPool
  cooldowns :: "nat list"
  net :: 'n
  attempts :: "(nat \<times> error option) list"

definition CompareAndSwapInt64 :: "int list \<Rightarrow> nat \<Rightarrow> int \<Rightarrow> int \<Rightarrow> int list \<times> bool" where
  "CompareAndSwapInt64 st i old new = (if st ! i = old then (st[i := new], True) else (st, False))"

definition StoreInt64 :: "int list \<Rightarrow> nat \<Rightarrow> int \<Rightarrow> int list" where
  "StoreInt64 st i v = st[i := v]"

definition set_status :: "'n pool_world \<Rightarrow> int list \<Rightarrow> 'n pool_world" where
  "set_status pw st = pw\<lparr>pool := (pool pw)\<lparr>status := st\<rparr>\<rparr>"

text \<open>The loop of \<open>RpcConnectionPool.Call\<close> over the clients that remain, with the value
  of \<open>err\<close> so far.\<close>

fun Call_loop ::
  "('n, 'r) transport \<Rightarrow> string \<Rightarrow> arg list \<Rightarrow> (nat \<times> ETHClient) list \<Rightarrow> 'n pool_world \<Rightarrow> error option \<Rightarrow>
     'n pool_world \<times> error option \<times> 'r option" where
  "Call_loop t method args [] pw err = (pw, err, None)"
| "Call_loop t method args ((idx, ec) # rest) pw err =
     (if idx \<ge> length (status (pool pw)) then (pw, Some IndexOutOfRange, None)
      else
        (case CompareAndSwapInt64 (status (pool pw)) idx 0 1 of
           (st, False) \<Rightarrow> Call_loop t method args rest pw err
         | (st, True) \<Rightarrow>
             (case ETHClient_Call t (net pw) ec method args of
                (n1, Inl e) \<Rightarrow>
                  (let pw1 = (set_status pw st)\<lparr>net := n1, attempts := attempts pw @ [(idx, Some e)]\<rparr>;
                       pw2 = (if e \<noteq> NotFound \<and> e \<noteq> ErrNoResult
                              then pw1\<lparr>cooldowns := cooldowns pw1 @ [idx]\<rparr> else pw1)
                   in Call_loop t method args rest pw2 (Some e))
              | (n1, Inr r) \<Rightarrow>
                  ((set_status pw (StoreInt64 st idx 0))\<lparr>net := n1, attempts := attempts pw @ [(idx, None)]\<rparr>,
                   None, Some r))))"

definition pool_Call ::
  "('n, 'r) transport \<Rightarrow> 'n pool_world \<Rightarrow> string \<Rightarrow> arg list \<Rightarrow> 'n pool_world \<times> error option \<times> 'r option" where
  "pool_Call t pw method args = Call_loop t method args (enumerate 0 (clients (pool pw))) pw None"

text \<open>The loop of \<open>RpcConnectionPool.BatchCall\<close>, with \<open>err\<close>, \<open>allBusy\<close> and the batch as
  the endpoints tried so far have left it.\<close>

fun BatchCall_loop ::
  "('n, 'r) transport \<Rightarrow> (nat \<times> ETHClient) list \<Rightarrow> 'n pool_world \<Rightarrow> error option \<Rightarrow> bool \<Rightarrow> 'r BatchElem list \<Rightarrow>
     'n pool_world \<times> error option \<times> 'r BatchElem list" where
  "BatchCall_loop t [] pw err allBusy batch =
     (if allBusy then (pw, Some (Errorf ''all clients are busy''), batch) else (pw, err, batch))"
| "BatchCall_loop t ((idx, ec) # rest) pw err allBusy batch =
     (if idx \<ge> length (status (pool pw)) then (pw, Some IndexOutOfRange, batch)
      else
        (case CompareAndSwapInt64 (status (pool pw)) idx 0 1 of
           (st, False) \<Rightarrow> BatchCall_loop t rest pw err allBusy batch
         | (st, True) \<Rightarrow>
             (case ETHClient_BatchCall t (net pw) ec batch of
                (n1, err0, batch1) \<Rightarrow>
                  (let err1 = (if err0 = None then getBatchErr batch1 else err0)
                   in if err1 \<noteq> None
                      then BatchCall_loop t rest
                             ((set_status pw st)\<lparr>net := n1, attempts := attempts pw @ [(idx, err1)],
                                                cooldowns := cooldowns pw @ [idx]\<rparr>)
                             err1 False batch1
                      else ((set_status pw (StoreInt64 st idx 0))\<lparr>net := n1, attempts := attempts pw @ [(idx, None)]\<rparr>,
                            None, batch1)))))"

definition pool_BatchCall ::
  "('n, 'r) transport \<Rightarrow> 'n pool_world \<Rightarrow> 'r BatchElem list \<Rightarrow> 'n pool_world \<times> error option \<times> 'r BatchElem list" where
  "pool_BatchCall t pw batch = BatchCall_loop t (enumerate 0 (clients (pool pw))) pw None True batch"

text \<open>The endpoints of the record of attempts that were handed to a cooldown by \<open>Call\<close>:
  those that returned an error other than the two sentinels.\<close>

definition faulted :: "(nat \<times> error option) list \<Rightarrow> nat list" where
  "faulted log =
     map fst (filter (\<lambda>(idx, e). case e of None \<Rightarrow> False | Some x \<Rightarrow> x \<noteq> NotFound \<and> x \<noteq> ErrNoResult) log)"

text \<open>
  What a scan of the pool by \<open>Call\<close> looks like in the record of attempts, for the status
  slice \<open>st\<close> the call started from and the indices \<open>idxs\<close> of the pool: the endpoints
  tried are the free ones in pool order, from the first on; every attempt but the last
  returned an error; and the scan stops before the last free endpoint only after an
  attempt that returned no error.
\<close>

definition scan_ok :: "int list \<Rightarrow> nat list \<Rightarrow> (nat \<times> error option) list \<Rightarrow> bool" where
  "scan_ok st idxs new \<longleftrightarrow>
     map fst new = take (length new) (filter (\<lambda>i. st ! i = 0) idxs) \<and>
     list_all (\<lambda>(i, e). e \<noteq> None) (butlast new) \<and>
     (length new < length (filter (\<lambda>i. st ! i = 0) idxs) \<longrightarrow> new \<noteq> [] \<and> snd (last new) = None)"

text \<open>
  What the endpoints answer when the clients \<open>ecs\<close> are called one after the other from
  the network state \<open>n\<close>; the error of an answer; and the result that a scan ends with,
  which is the result of its last answer when that is not an error.
\<close>

fun answers ::
  "('n, 'r) transport \<Rightarrow> string \<Rightarrow> arg list \<Rightarrow> 'n \<Rightarrow> ETHClient list \<Rightarrow> 'n \<times> (error + 'r) list" where
  "answers t method args n [] = (n, [])"
| "answers t method args n (ec # ecs) =
     (case ETHClient_Call t n ec method args of
        (n1, r) \<Rightarrow> (case answers t method args n1 ecs of (n2, rs) \<Rightarrow> (n2, r # rs)))"

definition err_of :: "error + 'r \<Rightarrow> error option" where
  "err_of r = (case r of Inl e \<Rightarrow> Some e | Inr x \<Rightarrow> None)"

definition last_result :: "(error + 'r) list \<Rightarrow> 'r option" where
  "last_result rs = (if rs = [] then None else (case last rs of Inl e \<Rightarrow> None | Inr x \<Rightarrow> Some x))"

section \<open>Concrete nodes and pools for the examples\<close>

definition example_header :: "Hash \<Rightarrow> Header" where
  "example_header h =
     \<lparr>h_Hash = h, h_ParentHash = 0, h_Number = Some 1, h_Difficulty = Some 1, h_BaseFee = None,
      h_Extra = [], h_WithdrawalsHash = None, h_ExcessBlobGas = None, h_BlobGasUsed = None,
      h_ParentBeaconRoot = None\<rparr>"

definition example_tx :: "Hash \<Rightarrow> Transaction" where
  "example_tx h =
     \<lparr>tx_BlockHash = 1, tx_BlockNumber = Some 1, tx_From = 0, tx_Hash = h, tx_Nonce = 0,
      tx_To = None, tx_TxIndex = 0, tx_Value = Some 0\<rparr>"

definition example_receipt :: "Hash \<Rightarrow> Hash \<Rightarrow> Receipt" where
  "example_receipt b t =
     \<lparr>r_BlockHash = b, r_BlockNumber = Some 1, r_TransactionIndex = 0, r_TransactionHash = t,
      r_GasUsed = 0, r_Status = 1\<rparr>"

text \<open>A decoder that reads every envelope as block \<open>1\<close> with the uncles \<open>5\<close> and \<open>6\<close> and
  the transaction \<open>9\<close>.\<close>

definition example_codec :: codec where
  "example_codec =
     \<lparr>unmarshalHeader = (\<lambda>raw. Inr (Some (example_header 1))),
      unmarshalFull = (\<lambda>raw. Inr \<lparr>f_Uncles = Some [5, 6], f_Transactions = Some [Some (example_tx 9)],
                                 f_Withdrawals = None\<rparr>),
      unmarshalCompact = (\<lambda>raw. Inr \<lparr>k_Uncles = Some [5, 6], k_Transactions = Some [9],
                                    k_Withdrawals = None\<rparr>)\<rparr>"

text \<open>A node that answers every call with an envelope and the element at index \<open>i\<close> of a
  batch with the header whose hash is the \<open>i\<close>-th of \<open>us\<close> (with null past the end of
  \<open>us\<close>); a node that answers every element of a batch with the receipt of transaction
  \<open>7\<close> in block \<open>b\<close>.\<close>

definition header_node :: "Hash list \<Rightarrow> (unit, Header) rpcCaller" where
  "header_node us =
     \<lparr>Call = (\<lambda>s method args. (s, Inr ''{}'')),
      BatchCall = (\<lambda>s batch. (s, None,
                    (\<lambda>i. (if i < length us then Some (example_header (us ! i)) else None, None))))\<rparr>"

definition receipt_node :: "Hash \<Rightarrow> (unit, Receipt) rpcCaller" where
  "receipt_node b =
     \<lparr>Call = (\<lambda>s method args. (s, Inr ''{}'')),
      BatchCall = (\<lambda>s batch. (s, None, (\<lambda>i. (Some (example_receipt b 7), None))))\<rparr>"

definition start :: "(unit, 'r) world" where
  "start = \<lparr>remote = (), issued = []\<rparr>"

text \<open>A pool of \<open>k\<close> connected endpoints with the status slice \<open>st\<close>, and transports of
  which number \<open>0\<close> answers \<open>NotFound\<close> and the others answer.\<close>

definition example_endpoint :: "nat \<Rightarrow> ETHClient" where
  "example_endpoint c =
     \<lparr>url = ''http://node'', rpc_client = Some c, networkId = ''1'', version = ''v'', latency = int c\<rparr>"

definition example_pool :: "int list \<Rightarrow> nat \<Rightarrow> unit pool_world" where
  "example_pool st k =
     \<lparr>pool = \<lparr>clients = map example_endpoint [0..<k], status = st\<rparr>, cooldowns = [], net = (),
      attempts = []\<rparr>"

definition example_transport :: "(unit, string) transport" where
  "example_transport =
     \<lparr>CallContext = (\<lambda>n c method args. (n, if c = 0 then Inl NotFound else Inr ''ok'')),
      BatchCallContext = (\<lambda>n c batch. (n, None, (\<lambda>i. (Some ''ok'', None))))\<rparr>"

text \<open>Three candidates: the first connects in 30 ns, the second in 10 ns, and the third
  cannot be dialled.\<close>

definition example_probes :: "nat \<Rightarrow> probe" where
  "example_probes i =
     \<lparr>dialed = (if i = 2 then Inl (Remote ''connection refused'') else Inr i),
      net_version = Inr ''1'',
      elapsed = (if i = 0 then 30 else 10),
      web3_clientVersion = Inr ''v''\<rparr>"

section \<open>Properties of the hex encoding\<close>

lemma hexval_hexdigit: "d < 16 \<Longrightarrow> hexval (hexdigit d) = d"
proof -
  have "list_all (\<lambda>d. hexval (hexdigit d) = d) [0..<16]" by code_simp
  then show "d < 16 \<Longrightarrow> hexval (hexdigit d) = d" by (simp add: list_all_iff)
qed

lemma hexdigit_in: "d < 16 \<Longrightarrow> hexdigit d \<in> set hexchars"
proof -
  have "length hexchars = 16" by (simp add: hexchars_def)
  then show "d < 16 \<Longrightarrow> hexdigit d \<in> set hexchars" by (simp add: hexdigit_def)
qed

lemma hexdigit_zero: "d < 16 \<Longrightarrow> hexdigit d = CHR ''0'' \<longleftrightarrow> d = 0"
proof -
  have "list_all (\<lambda>d. hexdigit d = CHR ''0'' \<longleftrightarrow> d = 0) [0..<16]" by code_simp
  then show "d < 16 \<Longrightarrow> hexdigit d = CHR ''0'' \<longleftrightarrow> d = 0" by (simp add: list_all_iff)
qed

lemma hex_value_snoc: "hex_value (ds @ [c]) = 16 * hex_value ds + hexval c"
  by (simp add: hex_value_def)

lemma hex_of_nat_nonempty: "hex_of_nat n \<noteq> []"
  by (subst hex_of_nat.simps) simp

lemma hex_value_hex_of_nat: "hex_value (hex_of_nat n) = n"
proof (induction n rule: hex_of_nat.induct)
  case (1 n)
  show ?case
  proof (cases "n < 16")
    case True
    then show ?thesis
      by (subst hex_of_nat.simps) (simp add: hex_value_def hexval_hexdigit)
  next
    case False
    with 1 show ?thesis
      by (subst hex_of_nat.simps) (simp add: hex_value_snoc hexval_hexdigit)
  qed
qed

lemma hex_of_nat_digits: "list_all (\<lambda>c. c \<in> set hexchars) (hex_of_nat n)"
proof (induction n rule: hex_of_nat.induct)
  case (1 n)
  show ?case
  proof (cases "n < 16")
    case True
    then show ?thesis
      by (subst hex_of_nat.simps) (simp add: hexdigit_in)
  next
    case False
    with 1 show ?thesis
      by (subst hex_of_nat.simps) (simp add: hexdigit_in)
  qed
qed

lemma hex_of_nat_hd: "0 < n \<Longrightarrow> hd (hex_of_nat n) \<noteq> CHR ''0''"
proof (induction n rule: hex_of_nat.induct)
  case (1 n)
  show ?case
  proof (cases "n < 16")
    case True
    with 1(2) show ?thesis
      by (subst hex_of_nat.simps) (simp add: hexdigit_zero)
  next
    case False
    then have "0 < n div 16" by (simp add: div_greater_zero_iff)
    with 1(1) False have "hd (hex_of_nat (n div 16)) \<noteq> CHR ''0''" by simp
    with False show ?thesis
      by (subst hex_of_nat.simps) (simp add: hex_of_nat_nonempty)
  qed
qed

lemma hex_of_nat_minimal: "minimal_hex (hex_of_nat n)"
proof (cases "n = 0")
  case True
  then show ?thesis
    by (simp add: minimal_hex_def hex_of_nat.simps hexdigit_def hexchars_def)
next
  case False
  then show ?thesis
    using hex_of_nat_hd [of n] hex_of_nat_digits [of n] hex_of_nat_nonempty [of n]
    by (simp add: minimal_hex_def)
qed

lemma EncodeBig_nonneg: "0 \<le> n \<Longrightarrow> EncodeBig n = ''0x'' @ hex_of_nat (nat n)"
  by (auto simp: EncodeBig_def Text16_def hex_of_nat.simps hexdigit_def hexchars_def sgn_if)

lemma EncodeBig_neg: "n < 0 \<Longrightarrow> EncodeBig n = ''-0x'' @ hex_of_nat (nat (- n))"
  by (auto simp: EncodeBig_def Text16_def sgn_if)

text \<open>
  Claim C9. The wire encoding of a block-number argument: \<open>latest\<close> when the number is
  absent, \<open>pending\<close> when it is the sentinel \<open>-1\<close>, and for every other number the
  minimal big-endian hex numeral of its magnitude behind the prefix \<open>0x\<close> (\<open>-0x\<close> when
  the number is negative).
\<close>

theorem toBlockNumArg_encoding:
  "toBlockNumArg None = ''latest'' \<and>
   toBlockNumArg (Some (- 1)) = ''pending'' \<and>
   (\<forall>n. n \<noteq> - 1 \<longrightarrow>
      (\<exists>ds. minimal_hex ds \<and> hex_value ds = nat \<bar>n\<bar> \<and>
            toBlockNumArg (Some n) = (if n < 0 then ''-0x'' else ''0x'') @ ds))"
proof (intro conjI allI impI)
  show "toBlockNumArg None = ''latest''"
    by (simp add: toBlockNumArg_def)
  show "toBlockNumArg (Some (- 1)) = ''pending''"
    by (simp add: toBlockNumArg_def)
next
  fix n :: int
  assume n: "n \<noteq> - 1"
  let ?ds = "hex_of_nat (nat \<bar>n\<bar>)"
  have enc: "toBlockNumArg (Some n) = EncodeBig n"
    using n by (simp add: toBlockNumArg_def)
  have "EncodeBig n = (if n < 0 then ''-0x'' else ''0x'') @ ?ds"
  proof (cases "n < 0")
    case True
    then show ?thesis by (simp add: EncodeBig_neg)
  next
    case False
    then show ?thesis by (simp add: EncodeBig_nonneg)
  qed
  with enc have "minimal_hex ?ds \<and> hex_value ?ds = nat \<bar>n\<bar> \<and>
      toBlockNumArg (Some n) = (if n < 0 then ''-0x'' else ''0x'') @ ?ds"
    by (simp add: hex_of_nat_minimal hex_value_hex_of_nat)
  then show "\<exists>ds. minimal_hex ds \<and> hex_value ds = nat \<bar>n\<bar> \<and>
      toBlockNumArg (Some n) = (if n < 0 then ''-0x'' else ''0x'') @ ds"
    by blast
qed

theorem toBlockNumArg_encoding_witness:
  "(255 :: int) \<noteq> - 1 \<and>
   (\<exists>ds. minimal_hex ds \<and> hex_value ds = nat \<bar>255\<bar> \<and> toBlockNumArg (Some 255) = ''0x'' @ ds)"
proof -
  have h: "(255 :: int) \<noteq> - 1" by simp
  from toBlockNumArg_encoding have
    "\<forall>n. n \<noteq> - 1 \<longrightarrow> (\<exists>ds. minimal_hex ds \<and> hex_value ds = nat \<bar>n\<bar> \<and>
        toBlockNumArg (Some n) = (if n < 0 then ''-0x'' else ''0x'') @ ds)"
    by blast
  from this [rule_format, OF h] h show ?thesis by simp
qed

section \<open>Properties of the receipt batcher\<close>

lemma length_store_replies: "length (store_replies batch reply) = length batch"
  by (simp add: store_replies_def)

lemma concat_chunks_take:
  "0 < k \<Longrightarrow> concat (map (\<lambda>i. take k (drop (i * k) xs)) [0..<m]) = take (m * k) xs"
proof (induction m)
  case 0
  then show ?case by simp
next
  case (Suc m)
  have "take (m * k) xs @ take k (drop (m * k) xs) = take (m * k + k) xs"
    by (simp add: take_add)
  with Suc show ?case by (simp add: add.commute)
qed

lemma concat_chunks_of: "0 < k \<Longrightarrow> concat (chunks_of k xs) = xs"
proof -
  assume k: "0 < k"
  have "length xs \<le> (length xs + k - 1) div k * k"
  proof -
    have "(length xs + k - 1) mod k < k" using k by simp
    moreover have "(length xs + k - 1) div k * k + (length xs + k - 1) mod k = length xs + k - 1"
      by simp
    ultimately show ?thesis by linarith
  qed
  then show ?thesis
    using k by (simp add: chunks_of_def concat_chunks_take)
qed

lemma chunk_index_bound:
  fixes i k n :: nat
  assumes k: "0 < k" and i: "i < (n + k - 1) div k"
  shows "i * k < n"
proof -
  from k i have "Suc i \<le> (n + k - 1) div k" by simp
  then have "Suc i * k \<le> (n + k - 1) div k * k" by (rule mult_le_mono1)
  also have "\<dots> \<le> n + k - 1" by simp
  finally show "i * k < n" using k by simp
qed

lemma chunks_of_bounds:
  assumes "0 < k" "c \<in> set (chunks_of k xs)"
  shows "length c \<le> k \<and> c \<noteq> []"
proof -
  from assms(2) obtain i where i: "i < (length xs + k - 1) div k" and c: "c = take k (drop (i * k) xs)"
    by (auto simp: chunks_of_def)
  from chunk_index_bound [OF assms(1) i] have "i * k < length xs" .
  with c assms(1) show ?thesis by simp
qed

lemma chunks_of_250: "length xs = 250 \<Longrightarrow> map length (chunks_of 100 xs) = [100, 100, 50]"
proof -
  assume n: "length xs = 250"
  have "[0..<3] = [0, 1, 2]" by (simp add: upt_rec)
  with n show ?thesis by (simp add: chunks_of_def)
qed

lemma batchGet_nonempty:
  assumes "xs \<noteq> []" and "BatchCall client (remote w) (receiptBatch xs) = (s1, err, reply)"
  shows "batchGetTransactionReceipt client w (Some xs) =
     (\<lparr>remote = s1, issued = issued w @ [BatchReq (receiptBatch xs)]\<rparr>,
      case err of
        Some e \<Rightarrow> Inl e
      | None \<Rightarrow>
          (case checkReceipts (zip xs (store_replies (receiptBatch xs) reply)) of
             Some e \<Rightarrow> Inl e
           | None \<Rightarrow> Inr (Some (map Result (store_replies (receiptBatch xs) reply)))))"
  using assms
  by (simp add: batchGetTransactionReceipt_def len_def elems_def client_BatchCall_def
        split: option.splits)

lemma serve_lengths: "map (\<lambda>(err, b). length b) (snd (serve client s bs)) = map length bs"
proof (induction bs arbitrary: s)
  case Nil
  then show ?case by simp
next
  case (Cons b bs)
  obtain s1 err reply where bc: "BatchCall client s b = (s1, err, reply)"
    by (cases "BatchCall client s b") auto
  obtain s2 rs where sv: "serve client s1 bs = (s2, rs)"
    by (cases "serve client s1 bs") auto
  from Cons [of s1] sv have "map (\<lambda>(err, b). length b) rs = map length bs" by simp
  with bc sv show ?case by (simp add: length_store_replies)
qed

lemma served_length:
  "length (concat (map (\<lambda>(err, b). map Result b) (snd (serve client s (map receiptBatch cs)))))
     = length (concat cs)"
proof -
  have "map length (map (\<lambda>(err, b). map Result b) (snd (serve client s (map receiptBatch cs))))
      = map (\<lambda>(err, b). length b) (snd (serve client s (map receiptBatch cs)))"
    by (auto simp: case_prod_beta)
  also have "\<dots> = map length (map receiptBatch cs)" by (rule serve_lengths)
  also have "\<dots> = map length cs" by (simp add: receiptBatch_def)
  finally show ?thesis by (simp add: length_concat)
qed

lemma chunks_of_single:
  assumes "xs \<noteq> []" "length xs \<le> 100"
  shows "chunks_of 100 xs = [xs]"
proof -
  from assms have "Suc 0 \<le> length xs" by (cases xs) simp_all
  with assms(2) have "(length xs + 100 - 1) div 100 = 1"
    by (intro div_nat_eqI) simp_all
  with assms(2) show ?thesis by (simp add: chunks_of_def)
qed

lemma world_eq: "(w :: ('s, 'r) world) = \<lparr>remote = remote w, issued = issued w\<rparr>"
  by (cases w) simp

lemma checkReceipts_good:
  "length batch = length xs \<Longrightarrow>
     checkReceipts (zip xs batch) = None \<longleftrightarrow> list_all (\<lambda>e. Error e = None \<and> Result e \<noteq> None) batch"
proof (induction xs arbitrary: batch)
  case Nil
  then show ?case by simp
next
  case (Cons x xs)
  then obtain e es where b: "batch = e # es" by (cases batch) auto
  with Cons.prems have "length es = length xs" by simp
  from Cons.IH [OF this] show ?case
    by (auto simp: b split: option.splits)
qed

lemma receiptChunks_exact:
  assumes "\<forall>i\<in>set js. i * rpcRequestBatchSize < length xs"
  shows "issued (fst (receiptChunks client xs w ret js)) =
       issued w @ map BatchReq
         (take (Suc (length (takeWhile good_batch
            (snd (serve client (remote w) (map (\<lambda>i. receiptBatch (take 100 (drop (i * 100) xs))) js))))))
            (map (\<lambda>i. receiptBatch (take 100 (drop (i * 100) xs))) js)) \<and>
     (length (takeWhile good_batch
        (snd (serve client (remote w) (map (\<lambda>i. receiptBatch (take 100 (drop (i * 100) xs))) js)))) < length js
      \<longrightarrow> isl (snd (receiptChunks client xs w ret js))) \<and>
     (length (takeWhile good_batch
        (snd (serve client (remote w) (map (\<lambda>i. receiptBatch (take 100 (drop (i * 100) xs))) js)))) = length js
      \<longrightarrow> receiptChunks client xs w ret js =
            (\<lparr>remote = fst (serve client (remote w) (map (\<lambda>i. receiptBatch (take 100 (drop (i * 100) xs))) js)),
              issued = issued w @ map BatchReq (map (\<lambda>i. receiptBatch (take 100 (drop (i * 100) xs))) js)\<rparr>,
             Inr (ret @ concat (map (\<lambda>(err, b). map Result b)
                (snd (serve client (remote w) (map (\<lambda>i. receiptBatch (take 100 (drop (i * 100) xs))) js)))))))"
  using assms
proof (induction js arbitrary: w ret)
  case Nil
  show ?case by (simp add: world_eq [symmetric])
next
  case (Cons i js)
  define c where "c = take 100 (drop (i * 100) xs)"
  define B where "B = receiptBatch c"
  define bs where "bs = map (\<lambda>i. receiptBatch (take 100 (drop (i * 100) xs))) js"
  obtain s1 err reply where bc: "BatchCall client (remote w) B = (s1, err, reply)"
    by (cases "BatchCall client (remote w) B") auto
  define w1 where "w1 = \<lparr>remote = s1, issued = issued w @ [BatchReq B]\<rparr>"
  define R where "R = store_replies B reply"
  obtain s2 sv where sv: "serve client s1 bs = (s2, sv)" by (cases "serve client s1 bs") auto
  from Cons.prems have "i * rpcRequestBatchSize < length xs" by simp
  then have cne: "c \<noteq> []" by (simp add: c_def rpcRequestBatchSize_def)
  have lenR: "length R = length c" by (simp add: R_def B_def receiptBatch_def length_store_replies)
  have slice: "Some (take ((if i * rpcRequestBatchSize + rpcRequestBatchSize > length xs then length xs
                     else i * rpcRequestBatchSize + rpcRequestBatchSize) - i * rpcRequestBatchSize)
                 (drop (i * rpcRequestBatchSize) xs)) = Some c"
    by (simp add: c_def rpcRequestBatchSize_def)
  have bg: "batchGetTransactionReceipt client w (Some c) =
      (w1, case err of Some e \<Rightarrow> Inl e
           | None \<Rightarrow> (case checkReceipts (zip c R) of Some e \<Rightarrow> Inl e | None \<Rightarrow> Inr (Some (map Result R))))"
    using batchGet_nonempty [OF cne, of client w s1 err reply] bc
    unfolding B_def w1_def R_def by simp
  have step: "receiptChunks client xs w ret (i # js) =
      (case batchGetTransactionReceipt client w (Some c) of
         (w1, Inl err) \<Rightarrow> (w1, Inl err)
       | (w1, Inr receipts) \<Rightarrow> receiptChunks client xs w1 (ret @ elems receipts) js)"
    by (simp only: receiptChunks.simps Let_def slice)
  have svc: "serve client (remote w) (B # bs) = (s2, (err, R) # sv)"
    using bc sv by (simp add: R_def)
  have good: "good_batch (err, R) \<longleftrightarrow> err = None \<and> checkReceipts (zip c R) = None"
    by (simp add: good_batch_def checkReceipts_good [OF lenR])
  have bsc: "map (\<lambda>i. receiptBatch (take 100 (drop (i * 100) xs))) (i # js) = B # bs"
    by (simp add: B_def c_def bs_def)
  show ?case
  proof (cases "good_batch (err, R)")
    case False
    then have "batchGetTransactionReceipt client w (Some c) = (w1, Inl (case err of Some e \<Rightarrow> e
        | None \<Rightarrow> the (checkReceipts (zip c R))))"
      unfolding good by (auto simp: bg split: option.splits)
    with step have run: "receiptChunks client xs w ret (i # js) = (w1, Inl (case err of Some e \<Rightarrow> e
        | None \<Rightarrow> the (checkReceipts (zip c R))))"
      by simp
    have g: "length (takeWhile good_batch ((err, R) # sv)) = 0" using False by simp
    show ?thesis
      unfolding bsc svc snd_conv fst_conv g run
      by (simp add: w1_def)
  next
    case True
    then have "batchGetTransactionReceipt client w (Some c) = (w1, Inr (Some (map Result R)))"
      unfolding good by (simp add: bg)
    with step have run: "receiptChunks client xs w ret (i # js) = receiptChunks client xs w1 (ret @ map Result R) js"
      by (simp add: elems_def)
    from Cons.prems have "\<forall>i\<in>set js. i * rpcRequestBatchSize < length xs" by simp
    note ih = Cons.IH [OF this, of w1 "ret @ map Result R", folded bs_def]
    have r1: "remote w1 = s1" and i1: "issued w1 = issued w @ [BatchReq B]" by (simp_all add: w1_def)
    have g: "length (takeWhile good_batch ((err, R) # sv)) = Suc (length (takeWhile good_batch sv))"
      using True by simp
    from ih show ?thesis
      unfolding bsc svc snd_conv fst_conv g run r1 i1 sv
      by simp
  qed
qed

lemma length_served: "length (snd (serve client s bs)) = length bs"
  using serve_lengths [of client s bs, THEN arg_cong, of length] by simp

lemma takeWhile_all_length:
  "length (takeWhile P xs) = length xs \<longleftrightarrow> (\<forall>x\<in>set xs. P x)"
proof
  assume a: "length (takeWhile P xs) = length xs"
  have "length (takeWhile P xs) + length (dropWhile P xs) = length xs"
    by (metis length_append takeWhile_dropWhile_id)
  with a have "dropWhile P xs = []" by simp
  then show "\<forall>x\<in>set xs. P x" by (simp add: dropWhile_eq_Nil_conv)
next
  assume "\<forall>x\<in>set xs. P x"
  then show "length (takeWhile P xs) = length xs" by (simp add: takeWhile_eq_all_conv [THEN iffD2])
qed

lemma good_results_nonnull:
  assumes "\<forall>r\<in>set sv. good_batch r"
  shows "list_all (\<lambda>r. r \<noteq> None) (concat (map (\<lambda>(err, b). map Result b) sv))"
  using assms by (induction sv) (auto simp: good_batch_def list_all_iff)

lemma receipts_core:
  fixes client :: "('s, Receipt) rpcCaller"
  assumes xs: "xs = elems txHashes"
    and bs: "bs = map receiptBatch (chunks_of 100 xs)"
    and g: "g = length (takeWhile good_batch (snd (serve client (remote w) bs)))"
    and rs: "rs = concat (map (\<lambda>(err, b). map Result b) (snd (serve client (remote w) bs)))"
    and out: "out = getBlockReceiptsByHashes client w blockHash txHashes"
  shows "issued (fst out) = issued w @ map BatchReq (take (Suc g) bs) \<and>
     (g < length bs \<longrightarrow> isl (snd out)) \<and>
     (g = length bs \<longrightarrow>
        out = (\<lparr>remote = fst (serve client (remote w) bs), issued = issued w @ map BatchReq bs\<rparr>,
               if length xs \<le> 100 then Inr (Some rs)
               else (case checkBlockHash blockHash rs of Some e \<Rightarrow> Inl e | None \<Rightarrow> Inr (Some rs))))"
proof -
  have n: "len txHashes = length xs" by (simp add: xs len_def elems_def split: option.splits)
  consider (empty) "xs = []" | (one) "xs \<noteq> []" "length xs \<le> 100" | (many) "100 < length xs"
    by fastforce
  then show ?thesis
  proof cases
    case empty
    with n have o: "out = (w, Inr (Some []))"
      by (simp add: out getBlockReceiptsByHashes_def batchGetTransactionReceipt_def rpcRequestBatchSize_def)
    from empty have b: "bs = []" by (simp add: bs chunks_of_def)
    show ?thesis unfolding o g rs b using empty by (simp add: world_eq [symmetric])
  next
    case one
    have cs: "chunks_of 100 xs = [xs]" using one by (rule chunks_of_single)
    from one have tx: "txHashes = Some xs"
      by (cases txHashes) (auto simp: xs elems_def)
    define B where "B = receiptBatch xs"
    have b: "bs = [B]" by (simp add: bs cs B_def)
    obtain s1 err reply where bc: "BatchCall client (remote w) B = (s1, err, reply)"
      by (cases "BatchCall client (remote w) B") auto
    define R where "R = store_replies B reply"
    have lenR: "length R = length xs" by (simp add: R_def B_def receiptBatch_def length_store_replies)
    have good: "good_batch (err, R) \<longleftrightarrow> err = None \<and> checkReceipts (zip xs R) = None"
      by (simp add: good_batch_def checkReceipts_good [OF lenR])
    have sv: "serve client (remote w) [B] = (s1, [(err, R)])"
      using bc by (simp add: R_def)
    from one n have "out = batchGetTransactionReceipt client w (Some xs)"
      by (simp add: out getBlockReceiptsByHashes_def rpcRequestBatchSize_def tx)
    with batchGet_nonempty [OF one(1), of client w s1 err reply] bc
    have o: "out = (\<lparr>remote = s1, issued = issued w @ [BatchReq B]\<rparr>,
        case err of Some e \<Rightarrow> Inl e
        | None \<Rightarrow> (case checkReceipts (zip xs R) of Some e \<Rightarrow> Inl e | None \<Rightarrow> Inr (Some (map Result R))))"
      unfolding B_def R_def by simp
    show ?thesis
    proof (cases "good_batch (err, R)")
      case True
      then have "out = (\<lparr>remote = s1, issued = issued w @ [BatchReq B]\<rparr>, Inr (Some (map Result R)))"
        unfolding good o by simp
      then show ?thesis unfolding g rs b sv using True one(2) by simp
    next
      case False
      then have "out = (\<lparr>remote = s1, issued = issued w @ [BatchReq B]\<rparr>,
          Inl (case err of Some e \<Rightarrow> e | None \<Rightarrow> the (checkReceipts (zip xs R))))"
        unfolding good o by (auto split: option.splits)
      then show ?thesis unfolding g rs b sv using False by simp
    qed
  next
    case many
    from many have tx: "txHashes = Some xs"
      by (cases txHashes) (auto simp: xs elems_def)
    define m where "m = (length xs + 100 - 1) div 100"
    have b: "bs = map (\<lambda>i. receiptBatch (take 100 (drop (i * 100) xs))) [0..<m]"
      by (simp add: bs chunks_of_def m_def o_def)
    have lb: "length bs = length [0..<m]" by (simp add: b)
    have bound: "\<forall>i\<in>set [0..<m]. i * rpcRequestBatchSize < length xs"
      using chunk_index_bound [of 100 _ "length xs"] by (auto simp: m_def rpcRequestBatchSize_def)
    have bcount: "(len (Some xs) + rpcRequestBatchSize - 1) div rpcRequestBatchSize = m"
      by (simp add: len_def m_def rpcRequestBatchSize_def)
    have big: "\<not> len (Some xs) \<le> rpcRequestBatchSize"
      using many by (simp add: len_def rpcRequestBatchSize_def)
    have el: "elems (Some xs) = xs" by (simp add: elems_def)
    have o: "out =
       (case receiptChunks client xs w [] [0..<m] of
              (w1, Inl err) \<Rightarrow> (w1, Inl err)
            | (w1, Inr ret) \<Rightarrow>
                (case checkBlockHash blockHash ret of
                   Some err \<Rightarrow> (w1, Inl err)
                 | None \<Rightarrow> (w1, Inr (Some ret))))"
      unfolding out tx getBlockReceiptsByHashes_def Let_def bcount el using big by simp
    note ex = receiptChunks_exact [OF bound, of client w "[]", folded b, folded g rs]
    have fo: "fst out = fst (receiptChunks client xs w [] [0..<m])"
      unfolding o by (simp split: prod.splits sum.splits option.splits)
    have io: "isl (snd (receiptChunks client xs w [] [0..<m])) \<Longrightarrow> isl (snd out)"
      unfolding o by (auto split: prod.splits sum.splits option.splits)
    have a1: "issued (fst out) = issued w @ map BatchReq (take (Suc g) bs)"
      unfolding fo using ex by blast
    have a2: "g < length bs \<longrightarrow> isl (snd out)"
      using ex io unfolding lb by blast
    have a3: "out = (\<lparr>remote = fst (serve client (remote w) bs), issued = issued w @ map BatchReq bs\<rparr>,
               if length xs \<le> 100 then Inr (Some rs)
               else (case checkBlockHash blockHash rs of Some e \<Rightarrow> Inl e | None \<Rightarrow> Inr (Some rs)))"
      if "g = length bs"
    proof -
      from that ex have "receiptChunks client xs w [] [0..<m] =
          (\<lparr>remote = fst (serve client (remote w) bs), issued = issued w @ map BatchReq bs\<rparr>, Inr ([] @ rs))"
        unfolding lb by blast
      then show ?thesis unfolding o using many by (simp split: option.splits)
    qed
    from a1 a2 a3 show ?thesis by blast
  qed
qed

lemma map_enumerate_snd: "map (\<lambda>(i, e). f e) (enumerate n xs) = map f xs"
  by (induction xs arbitrary: n) simp_all

lemma serve_receipt_node:
  "serve (receipt_node b) s bs =
     (s, map (\<lambda>bt. (None, map (\<lambda>e. e\<lparr>Result := Some (example_receipt b 7), Error := None\<rparr>) bt)) bs)"
  by (induction bs arbitrary: s) (simp_all add: receipt_node_def store_replies_def map_enumerate_snd)

lemma checkBlockHash_replicate:
  "checkBlockHash b (replicate n (Some (example_receipt b t))) = None"
  by (induction n) (simp_all add: example_receipt_def)

lemma chunks_of_replicate_250:
  "chunks_of 100 (replicate 250 x) = [replicate 100 x, replicate 100 x, replicate 50 x]"
proof -
  have "[0..<3] = [0, 1, 2]" by (simp add: upt_rec)
  then show ?thesis by (simp add: chunks_of_def)
qed

text \<open>
  Claim C7. The list of transaction hashes is cut into the \<open>\<lceil>n / 100\<rceil>\<close> consecutive chunks of
  at most 100 hashes (sizes 100, 100, 50 for 250 hashes), and each chunk becomes a batch
  with one \<open>eth_getTransactionReceipt\<close> element per hash. With \<open>g\<close> the number of
  chunks served well before the first that is not (the call returns an error, or an
  element comes back with an error or a null result), \<open>getBlockReceiptsByHashes\<close> issues
  the batches of the first \<open>g + 1\<close> chunks, in order, and nothing else. When some chunk is
  not served well, and so whenever a result is null, it returns an error. When all are
  served well it has issued one batch per chunk and returns the results of the chunks
  concatenated in the order of the input, none of them null (for more than 100 hashes,
  unless the comparison of the block hashes fails).
\<close>

theorem getBlockReceiptsByHashes_chunks:
  fixes client :: "('s, Receipt) rpcCaller"
  shows
    "(let xs = elems txHashes;
          cs = chunks_of 100 xs;
          bs = map receiptBatch cs;
          served = snd (serve client (remote w) bs);
          g = length (takeWhile good_batch served);
          rs = concat (map (\<lambda>(err, b). map Result b) served);
          out = getBlockReceiptsByHashes client w blockHash txHashes
      in length cs = (length xs + 99) div 100 \<and>
         concat cs = xs \<and>
         (\<forall>c\<in>set cs. c \<noteq> [] \<and> length c \<le> 100) \<and>
         (length xs = 250 \<longrightarrow> map length cs = [100, 100, 50]) \<and>
         (\<forall>c. receiptBatch c =
                map (\<lambda>txHash. \<lparr>Method = ''eth_getTransactionReceipt'', Args = [ArgHash txHash],
                                Result = None, Error = None\<rparr>) c) \<and>
         issued (fst out) = issued w @ map BatchReq (take (Suc g) bs) \<and>
         (g < length cs \<longrightarrow> isl (snd out)) \<and>
         ((\<exists>r\<in>set served. \<exists>e\<in>set (snd r). Result e = None) \<longrightarrow> isl (snd out)) \<and>
         (g = length cs \<longrightarrow>
            length rs = length xs \<and>
            list_all (\<lambda>r. r \<noteq> None) rs \<and>
            out = (\<lparr>remote = fst (serve client (remote w) bs), issued = issued w @ map BatchReq bs\<rparr>,
                   if length xs \<le> 100 then Inr (Some rs)
                   else (case checkBlockHash blockHash rs of
                           Some e \<Rightarrow> Inl e
                         | None \<Rightarrow> Inr (Some rs)))))"
proof -
  define xs where "xs = elems txHashes"
  define cs where "cs = chunks_of 100 xs"
  define bs where "bs = map receiptBatch cs"
  define served where "served = snd (serve client (remote w) bs)"
  define g where "g = length (takeWhile good_batch served)"
  define rs where "rs = concat (map (\<lambda>(err, b). map Result b) served)"
  define out where "out = getBlockReceiptsByHashes client w blockHash txHashes"
  have p1: "length cs = (length xs + 99) div 100"
    by (simp add: cs_def chunks_of_def)
  have p2: "concat cs = xs"
    unfolding cs_def by (rule concat_chunks_of) simp
  have p3: "\<forall>c\<in>set cs. c \<noteq> [] \<and> length c \<le> 100"
  proof
    fix c assume "c \<in> set cs"
    then have "c \<in> set (chunks_of 100 xs)" by (simp add: cs_def)
    from chunks_of_bounds [OF _ this] show "c \<noteq> [] \<and> length c \<le> 100" by simp
  qed
  have p4: "length xs = 250 \<longrightarrow> map length cs = [100, 100, 50]"
    unfolding cs_def using chunks_of_250 [of xs] by blast
  have p5: "\<forall>c. receiptBatch c =
                map (\<lambda>txHash. \<lparr>Method = ''eth_getTransactionReceipt'', Args = [ArgHash txHash],
                                Result = None, Error = None\<rparr>) c"
    by (simp add: receiptBatch_def)
  have lb: "length bs = length cs" by (simp add: bs_def)
  have ls: "length served = length cs"
    unfolding served_def by (simp add: length_served lb)
  have bs': "bs = map receiptBatch (chunks_of 100 xs)" by (simp add: bs_def cs_def)
  have g': "g = length (takeWhile good_batch (snd (serve client (remote w) bs)))"
    by (simp add: g_def served_def)
  have rs': "rs = concat (map (\<lambda>(err, b). map Result b) (snd (serve client (remote w) bs)))"
    by (simp add: rs_def served_def)
  note core = receipts_core [OF xs_def bs' g' rs' out_def]
  from core have p6: "issued (fst out) = issued w @ map BatchReq (take (Suc g) bs)" by blast
  from core have p7: "g < length cs \<longrightarrow> isl (snd out)" unfolding lb by blast
  have p8: "(\<exists>r\<in>set served. \<exists>e\<in>set (snd r). Result e = None) \<longrightarrow> isl (snd out)"
  proof
    assume "\<exists>r\<in>set served. \<exists>e\<in>set (snd r). Result e = None"
    then obtain r where "r \<in> set served" "\<not> good_batch r"
      by (auto simp: good_batch_def list_all_iff)
    then have "g \<noteq> length served"
      unfolding g_def by (auto simp: takeWhile_all_length)
    moreover have "g \<le> length served"
      unfolding g_def by (rule length_takeWhile_le)
    ultimately have "g < length cs" by (simp add: ls)
    with p7 show "isl (snd out)" by blast
  qed
  have p9: "length rs = length xs \<and>
            list_all (\<lambda>r. r \<noteq> None) rs \<and>
            out = (\<lparr>remote = fst (serve client (remote w) bs), issued = issued w @ map BatchReq bs\<rparr>,
                   if length xs \<le> 100 then Inr (Some rs)
                   else (case checkBlockHash blockHash rs of
                           Some e \<Rightarrow> Inl e
                         | None \<Rightarrow> Inr (Some rs)))" if ge: "g = length cs"
  proof -
    from ge have "\<forall>r\<in>set served. good_batch r"
      unfolding g_def ls [symmetric] by (simp add: takeWhile_all_length)
    then have a: "list_all (\<lambda>r. r \<noteq> None) rs"
      unfolding rs_def by (rule good_results_nonnull)
    have "length rs = length (concat cs)"
      unfolding rs_def served_def bs_def by (rule served_length)
    then have b: "length rs = length xs" by (simp only: p2)
    from core ge have c: "out = (\<lparr>remote = fst (serve client (remote w) bs), issued = issued w @ map BatchReq bs\<rparr>,
                   if length xs \<le> 100 then Inr (Some rs)
                   else (case checkBlockHash blockHash rs of
                           Some e \<Rightarrow> Inl e
                         | None \<Rightarrow> Inr (Some rs)))"
      unfolding lb by blast
    from a b c show ?thesis by (intro conjI)
  qed
  from p9 have p9': "g = length cs \<longrightarrow>
            length rs = length xs \<and>
            list_all (\<lambda>r. r \<noteq> None) rs \<and>
            out = (\<lparr>remote = fst (serve client (remote w) bs), issued = issued w @ map BatchReq bs\<rparr>,
                   if length xs \<le> 100 then Inr (Some rs)
                   else (case checkBlockHash blockHash rs of
                           Some e \<Rightarrow> Inl e
                         | None \<Rightarrow> Inr (Some rs)))"
    by (intro impI)
  show ?thesis
    unfolding Let_def
    unfolding xs_def [symmetric]
    unfolding cs_def [symmetric]
    unfolding bs_def [symmetric]
    unfolding served_def [symmetric]
    unfolding g_def [symmetric] rs_def [symmetric] out_def [symmetric]
    by (intro conjI p1 p2 p3 p4 p5 p6 p7 p8 p9')
qed

theorem getBlockReceiptsByHashes_chunks_witness:
  "length (replicate 250 (7 :: Hash)) = 250 \<and>
   map length (chunks_of 100 (replicate 250 (7 :: Hash))) = [100, 100, 50] \<and>
   length (takeWhile good_batch
      (snd (serve (receipt_node 1) (remote start)
              (map receiptBatch (chunks_of 100 (elems (Some (replicate 250 7)))))))) =
     length (chunks_of 100 (elems (Some (replicate 250 (7 :: Hash))))) \<and>
   getBlockReceiptsByHashes (receipt_node 1) start 1 (Some (replicate 250 7)) =
     (\<lparr>remote = (),
       issued = [BatchReq (receiptBatch (replicate 100 7)), BatchReq (receiptBatch (replicate 100 7)),
                 BatchReq (receiptBatch (replicate 50 7))]\<rparr>,
      Inr (Some (replicate 250 (Some (example_receipt 1 7)))))"
proof -
  let ?xs = "replicate 250 (7 :: Hash)"
  let ?r = "Some (example_receipt 1 7)"
  have el: "elems (Some ?xs) = ?xs" by (simp add: elems_def)
  have cs: "chunks_of 100 ?xs = [replicate 100 7, replicate 100 7, replicate 50 7]"
    by (rule chunks_of_replicate_250)
  have sizes: "map length (chunks_of 100 ?xs) = [100, 100, 50]"
    by (simp add: cs)
  have good: "length (takeWhile good_batch
      (snd (serve (receipt_node 1) (remote start) (map receiptBatch (chunks_of 100 (elems (Some ?xs))))))) =
     length (chunks_of 100 (elems (Some ?xs)))"
    unfolding el cs serve_receipt_node
    by (simp add: good_batch_def list_all_iff)
  have rs: "concat (map (\<lambda>(err, b). map Result b)
      (snd (serve (receipt_node 1) (remote start) (map receiptBatch (chunks_of 100 (elems (Some ?xs)))))))
      = replicate 250 ?r"
    unfolding el cs serve_receipt_node
    by (simp add: receiptBatch_def replicate_add [symmetric])
  have rem: "fst (serve (receipt_node 1) (remote start) (map receiptBatch (chunks_of 100 (elems (Some ?xs))))) = ()"
    by simp
  note t = getBlockReceiptsByHashes_chunks [of "Some ?xs" "receipt_node 1" start 1, unfolded Let_def]
  note ok = t [THEN conjunct2, THEN conjunct2, THEN conjunct2, THEN conjunct2, THEN conjunct2,
    THEN conjunct2, THEN conjunct2, THEN conjunct2, rule_format, OF good,
    THEN conjunct2, THEN conjunct2]
  have run: "getBlockReceiptsByHashes (receipt_node 1) start 1 (Some ?xs) =
     (\<lparr>remote = (),
       issued = [BatchReq (receiptBatch (replicate 100 7)), BatchReq (receiptBatch (replicate 100 7)),
                 BatchReq (receiptBatch (replicate 50 7))]\<rparr>,
      Inr (Some (replicate 250 ?r)))"
    using ok unfolding rs rem
    unfolding el cs
    by (simp add: checkBlockHash_replicate start_def)
  from sizes good run show ?thesis by simp
qed

text \<open>
  Claim C10. For an empty list of transaction hashes, nil or not,
  \<open>getBlockReceiptsByHashes\<close> returns an empty list that is not nil and no error, and the
  caller is left as it was: no request is issued.
\<close>

theorem getBlockReceiptsByHashes_empty:
  "getBlockReceiptsByHashes client w blockHash (Some []) = (w, Inr (Some [])) \<and>
   getBlockReceiptsByHashes client w blockHash None = (w, Inr (Some []))"
  by (simp add: getBlockReceiptsByHashes_def batchGetTransactionReceipt_def len_def rpcRequestBatchSize_def)

text \<open>
  Claim C2. With one transaction hash, a node that answers with a receipt of block \<open>2\<close>
  when the receipts of block \<open>1\<close> are asked for is believed: at most 100 hashes take the
  branch that returns the batch as it is, and the block hashes are compared only in the
  branch for more than 100.
\<close>

theorem getBlockReceiptsByHashes_small_list_unchecked:
  "getBlockReceiptsByHashes (receipt_node 2) start 1 (Some [7]) =
     (\<lparr>remote = (), issued = [BatchReq (receiptBatch [7])]\<rparr>, Inr (Some [Some (example_receipt 2 7)])) \<and>
   r_BlockHash (example_receipt 2 7) \<noteq> 1"
  by (simp add: getBlockReceiptsByHashes_def batchGetTransactionReceipt_def len_def elems_def
      rpcRequestBatchSize_def client_BatchCall_def receipt_node_def receiptBatch_def
      store_replies_def start_def example_receipt_def)

section \<open>Properties of the block assembler\<close>










lemma getBlock_full_bodiless:
  "getBlock cd client w method numOrHash True = (w', Inr blk) \<Longrightarrow> body blk = None \<and> compact blk = None"
  by (auto simp: getBlock_def WithBody_def NewBlockWithHeader_def WithWithdrawals_def Let_def
       split: prod.splits sum.splits if_splits option.splits)



text \<open>
  Claim C1. A full block is asked for by hash from a node that answers honestly, with
  the two uncles requested; \<open>getBlock\<close> succeeds, and the block it returns has neither
  a body nor a compact body: \<open>WithBody\<close> fills a new block with the transactions and the
  uncles and then returns its receiver, the block made from the header alone.
\<close>

theorem getBlock_full_returns_bodiless_block:
  "BlockByHash example_codec (header_node [5, 6]) start 1 True =
     (\<lparr>remote = (), issued = [CallReq ''eth_getBlockByHash'' [ArgHash 1, ArgBool True],
                                 BatchReq (uncleBatch 1 2)]\<rparr>,
      Inr \<lparr>header = Some (example_header 1), body = None, compact = None, withdrawals = None\<rparr>)"
proof -
  have u: "[0..<2] = [0, 1]" by (simp add: upt_rec)
  show ?thesis
    by (simp add: BlockByHash_def getBlock_def client_Call_def header_node_def example_codec_def
       getBlockUncles_def len_def elems_def client_BatchCall_def uncleBatch_def store_replies_def
       example_header_def WithBody_def NewBlockWithHeader_def WithWithdrawals_def example_tx_def
       start_def u)
qed

section \<open>Properties of the connection pool\<close>

lemma faulted_append: "faulted (xs @ ys) = faulted xs @ faulted ys"
  by (simp add: faulted_def)

lemma filter_free_update:
  "idx \<notin> set idxs \<Longrightarrow> filter (\<lambda>i. st[idx := v] ! i = 0) idxs = filter (\<lambda>i. st ! i = (0::int)) idxs"
proof (rule filter_cong [OF refl])
  fix x assume a: "idx \<notin> set idxs" "x \<in> set idxs"
  then have "idx \<noteq> x" by auto
  then show "(st[idx := v] ! x = 0) = (st ! x = 0)" by simp
qed

lemma last_result_Cons_Inl: "last_result (Inl e # rs) = last_result rs"
  by (simp add: last_result_def)

lemma Call_loop_scan:
  assumes "distinct (map fst ics)"
    and "\<forall>i\<in>set (map fst ics). i < length (status (pool pw))"
    and "\<forall>ic\<in>set ics. cl (fst ic) = snd ic"
    and "Call_loop t m a ics pw err = (pw', err', res)"
  shows "\<exists>new rs. attempts pw' = attempts pw @ new \<and>
      cooldowns pw' = cooldowns pw @ faulted new \<and>
      scan_ok (status (pool pw)) (map fst ics) new \<and>
      err' = (if new = [] then err else snd (last new)) \<and>
      answers t m a (net pw) (map (\<lambda>x. cl (fst x)) new) = (net pw', rs) \<and>
      map snd new = map err_of rs \<and>
      res = last_result rs"
  using assms
proof (induction ics arbitrary: pw err)
  case Nil
  then show ?case
    by (intro exI [of _ "[]"]) (simp add: faulted_def scan_ok_def last_result_def)
next
  case (Cons ic ics)
  obtain idx ec where ic: "ic = (idx, ec)" by (cases ic)
  define st where "st = status (pool pw)"
  from Cons.prems ic have idx: "idx < length st" and notin: "idx \<notin> set (map fst ics)"
    and dist: "distinct (map fst ics)" and rng: "\<forall>i\<in>set (map fst ics). i < length st"
    and cl: "\<forall>ic\<in>set ics. cl (fst ic) = snd ic" and clx: "cl idx = ec"
    by (auto simp: st_def)
  show ?case
  proof (cases "st ! idx = 0")
    case False
    with idx Cons.prems(4) have run: "Call_loop t m a ics pw err = (pw', err', res)"
      by (simp add: ic st_def CompareAndSwapInt64_def)
    from rng have "\<forall>i\<in>set (map fst ics). i < length (status (pool pw))" by (simp add: st_def)
    from Cons.IH [OF dist this cl run] obtain new rs where new:
      "attempts pw' = attempts pw @ new" "cooldowns pw' = cooldowns pw @ faulted new"
      "scan_ok st (map fst ics) new" "err' = (if new = [] then err else snd (last new))"
      "answers t m a (net pw) (map (\<lambda>x. cl (fst x)) new) = (net pw', rs)"
      "map snd new = map err_of rs" "res = last_result rs"
      unfolding st_def by blast
    from new(3) False have "scan_ok st (map fst (ic # ics)) new"
      by (simp add: scan_ok_def ic)
    with new show ?thesis unfolding st_def by blast
  next
    case True
    obtain n1 reply where call: "ETHClient_Call t (net pw) ec m a = (n1, reply)"
      by (cases "ETHClient_Call t (net pw) ec m a")
    show ?thesis
    proof (cases reply)
      case (Inr r)
      with True idx call Cons.prems(4) have
        pw': "pw' = (set_status pw (StoreInt64 (st[idx := 1]) idx 0))\<lparr>net := n1, attempts := attempts pw @ [(idx, None)]\<rparr>"
        and e: "err' = None" and r: "res = Some r"
        by (simp_all add: ic st_def CompareAndSwapInt64_def)
      from pw' have a: "attempts pw' = attempts pw @ [(idx, None)]"
        and c: "cooldowns pw' = cooldowns pw @ faulted [(idx, None)]"
        and n: "net pw' = n1"
        by (simp_all add: set_status_def faulted_def)
      have s: "scan_ok st (map fst (ic # ics)) [(idx, None)]"
        using True by (simp add: scan_ok_def ic)
      have an: "answers t m a (net pw) (map (\<lambda>x. cl (fst x)) [(idx, None :: error option)]) = (net pw', [Inr r])"
        using call Inr by (simp add: clx n)
      have "map snd [(idx, None :: error option)] = map err_of [Inr r :: error + 'b]"
        by (simp add: err_of_def)
      moreover have "res = last_result [Inr r :: error + 'b]" by (simp add: r last_result_def)
      moreover have "err' = (if [(idx, None :: error option)] = [] then err else snd (last [(idx, None)]))"
        by (simp add: e)
      ultimately show ?thesis using a c s an unfolding st_def by blast
    next
      case (Inl e)
      define pw1 where "pw1 = (set_status pw (st[idx := 1]))\<lparr>net := n1, attempts := attempts pw @ [(idx, Some e)]\<rparr>"
      define pw2 where "pw2 = (if e \<noteq> NotFound \<and> e \<noteq> ErrNoResult
                              then pw1\<lparr>cooldowns := cooldowns pw1 @ [idx]\<rparr> else pw1)"
      from Inl True idx call Cons.prems(4) have run: "Call_loop t m a ics pw2 (Some e) = (pw', err', res)"
        by (auto simp: ic st_def CompareAndSwapInt64_def pw1_def pw2_def Let_def split: if_splits)
      have st2: "status (pool pw2) = st[idx := 1]"
        by (simp add: pw2_def pw1_def set_status_def)
      have a2: "attempts pw2 = attempts pw @ [(idx, Some e)]"
        by (simp add: pw2_def pw1_def set_status_def)
      have c2: "cooldowns pw2 = cooldowns pw @ faulted [(idx, Some e)]"
        by (simp add: pw2_def pw1_def set_status_def faulted_def)
      have n2: "net pw2 = n1"
        by (simp add: pw2_def pw1_def set_status_def)
      from rng have "\<forall>i\<in>set (map fst ics). i < length (status (pool pw2))" by (simp add: st2)
      from Cons.IH [OF dist this cl run] obtain new rs where new:
        "attempts pw' = attempts pw2 @ new" "cooldowns pw' = cooldowns pw2 @ faulted new"
        "scan_ok (st[idx := 1]) (map fst ics) new" "err' = (if new = [] then Some e else snd (last new))"
        "answers t m a n1 (map (\<lambda>x. cl (fst x)) new) = (net pw', rs)"
        "map snd new = map err_of rs" "res = last_result rs"
        unfolding st2 n2 by blast
      have ff: "filter (\<lambda>i. st[idx := 1] ! i = 0) (map fst ics) = filter (\<lambda>i. st ! i = 0) (map fst ics)"
        using notin by (rule filter_free_update)
      from new(3) True have "scan_ok st (map fst (ic # ics)) ((idx, Some e) # new)"
        unfolding scan_ok_def ff by (cases new) (auto simp: ic)
      moreover have "attempts pw' = attempts pw @ ((idx, Some e) # new)"
        using new(1) a2 by simp
      moreover have "cooldowns pw' = cooldowns pw @ faulted ((idx, Some e) # new)"
        using new(2) c2 faulted_append [of "[(idx, Some e)]" new] by simp
      moreover have "err' = (if (idx, Some e) # new = [] then err else snd (last ((idx, Some e) # new)))"
        using new(4) by simp
      moreover have "answers t m a (net pw) (map (\<lambda>x. cl (fst x)) ((idx, Some e) # new)) = (net pw', Inl e # rs)"
        using call Inl new(5) by (simp add: clx)
      moreover have "map snd ((idx, Some e) # new) = map err_of (Inl e # rs)"
        using new(6) by (simp add: err_of_def)
      moreover have "res = last_result (Inl e # rs)"
        using new(7) by (simp add: last_result_Cons_Inl)
      ultimately show ?thesis unfolding st_def by blast
    qed
  qed
qed

lemma Call_loop_all_busy:
  assumes "\<forall>ic\<in>set ics. fst ic < length (status (pool pw)) \<and> status (pool pw) ! fst ic \<noteq> 0"
  shows "Call_loop t m a ics pw err = (pw, err, None)"
  using assms
proof (induction ics)
  case Nil
  then show ?case by simp
next
  case (Cons ic ics)
  obtain idx ec where ic: "ic = (idx, ec)" by (cases ic)
  with Cons show ?case by (simp add: CompareAndSwapInt64_def)
qed

lemma BatchCall_loop_all_busy:
  assumes "\<forall>ic\<in>set ics. fst ic < length (status (pool pw)) \<and> status (pool pw) ! fst ic \<noteq> 0"
  shows "BatchCall_loop t ics pw err allBusy batch =
     (if allBusy then (pw, Some (Errorf ''all clients are busy''), batch) else (pw, err, batch))"
  using assms
proof (induction ics)
  case Nil
  then show ?case by simp
next
  case (Cons ic ics)
  obtain idx ec where ic: "ic = (idx, ec)" by (cases ic)
  with Cons show ?case by (simp add: CompareAndSwapInt64_def)
qed

lemma enumerate_in_range:
  "ic \<in> set (enumerate 0 cs) \<Longrightarrow> fst ic < length cs \<and> cs ! fst ic = snd ic"
  by (simp add: in_set_enumerate_eq)

lemma pool_all_busy:
  assumes len: "length (status (pool pw)) = length (clients (pool pw))"
    and busy: "\<forall>i<length (clients (pool pw)). status (pool pw) ! i \<noteq> 0"
  shows "pool_Call t pw method args = (pw, None, None)"
    and "pool_BatchCall t pw batch = (pw, Some (Errorf ''all clients are busy''), batch)"
proof -
  have b: "\<forall>ic\<in>set (enumerate 0 (clients (pool pw))).
      fst ic < length (status (pool pw)) \<and> status (pool pw) ! fst ic \<noteq> 0"
    using len busy enumerate_in_range [of _ "clients (pool pw)"] by auto
  show "pool_Call t pw method args = (pw, None, None)"
    unfolding pool_Call_def by (rule Call_loop_all_busy [OF b])
  show "pool_BatchCall t pw batch = (pw, Some (Errorf ''all clients are busy''), batch)"
    unfolding pool_BatchCall_def by (simp add: BatchCall_loop_all_busy [OF b])
qed

lemma scan_ok_distinct:
  assumes "scan_ok st [0..<n] new"
  shows "distinct (map fst new)"
proof -
  from assms have "map fst new = take (length new) (filter (\<lambda>i. st ! i = 0) [0..<n])"
    by (simp add: scan_ok_def)
  moreover have "distinct (take (length new) (filter (\<lambda>i. st ! i = 0) [0..<n]))"
    by (intro distinct_take distinct_filter) simp
  ultimately show ?thesis by simp
qed

lemma faulted_member:
  "idx \<in> set (faulted new) \<Longrightarrow> \<exists>x. (idx, Some x) \<in> set new \<and> x \<noteq> NotFound \<and> x \<noteq> ErrNoResult"
  by (auto simp: faulted_def split: option.splits)

text \<open>
  Claim C3. A pool of two endpoints, both busy: every compare-and-swap fails. \<open>Call\<close>
  comes to the end of its loop with \<open>err\<close> still nil and returns nil, where \<open>BatchCall\<close>,
  which keeps the flag \<open>allBusy\<close>, returns the error \<open>all clients are busy\<close>.
\<close>

theorem Call_all_busy_returns_nil:
  "pool_Call example_transport (example_pool [1, 1] 2) ''eth_blockNumber'' [] =
     (example_pool [1, 1] 2, None, None) \<and>
   pool_BatchCall example_transport (example_pool [1, 1] 2)
       [\<lparr>Method = ''eth_blockNumber'', Args = [], Result = None, Error = None\<rparr>] =
     (example_pool [1, 1] 2, Some (Errorf ''all clients are busy''),
      [\<lparr>Method = ''eth_blockNumber'', Args = [], Result = None, Error = None\<rparr>])"
proof -
  have u: "[0..<2] = [0, 1]" by (simp add: upt_rec)
  show ?thesis
    by (simp add: pool_Call_def pool_BatchCall_def example_pool_def u CompareAndSwapInt64_def)
qed

text \<open>
  Claim C5. A pool with one free endpoint, which answers \<open>NotFound\<close>. \<open>Call\<close> claims the
  slot, starts no cooldown for this error and returns it, and the slot is left busy with
  nothing that will ever free it: the next \<open>Call\<close> finds no endpoint to try.
\<close>

theorem Call_NotFound_leaves_slot_busy:
  "pool_Call example_transport (example_pool [0] 1) ''eth_getCode'' [] =
     (\<lparr>pool = \<lparr>clients = [example_endpoint 0], status = [1]\<rparr>, cooldowns = [], net = (),
       attempts = [(0, Some NotFound)]\<rparr>,
      Some NotFound, None :: string option) \<and>
   pool_Call example_transport
       \<lparr>pool = \<lparr>clients = [example_endpoint 0], status = [1]\<rparr>, cooldowns = [], net = (),
        attempts = [(0, Some NotFound)]\<rparr> ''eth_getCode'' [] =
     (\<lparr>pool = \<lparr>clients = [example_endpoint 0], status = [1]\<rparr>, cooldowns = [], net = (),
       attempts = [(0, Some NotFound)]\<rparr>,
      None, None :: string option)"
  by (simp add: pool_Call_def example_pool_def example_endpoint_def CompareAndSwapInt64_def
      ETHClient_Call_def example_transport_def set_status_def)

text \<open>
  Claim C4, as the code has it. \<open>Call\<close> tries the free endpoints in pool order, each
  answer being the one the endpoint gives; it stops at the first that answers without
  error and otherwise goes on to the last free endpoint, whatever the errors are, so
  after \<open>NotFound\<close> or \<open>ErrNoResult\<close> the next free endpoint is still tried. A cooldown is
  started for exactly the endpoints whose error is neither of the two, hence for no
  endpoint that answered \<open>NotFound\<close> or \<open>ErrNoResult\<close>. When an endpoint was tried, \<open>Call\<close>
  returns the error of the last one tried, nil if that one succeeded, with its result.
\<close>

theorem Call_sentinel_no_cooldown_scan_goes_on:
  assumes len: "length (status (pool pw)) = length (clients (pool pw))"
    and run: "pool_Call t pw method args = (pw', err, res)"
  shows "\<exists>new rs.
      attempts pw' = attempts pw @ new \<and>
      answers t method args (net pw) (map (\<lambda>x. clients (pool pw) ! fst x) new) = (net pw', rs) \<and>
      map snd new = map err_of rs \<and>
      scan_ok (status (pool pw)) [0..<length (clients (pool pw))] new \<and>
      cooldowns pw' = cooldowns pw @ faulted new \<and>
      (\<forall>idx e. (idx, Some e) \<in> set new \<and> (e = NotFound \<or> e = ErrNoResult) \<longrightarrow> idx \<notin> set (faulted new)) \<and>
      (new \<noteq> [] \<longrightarrow> err = snd (last new)) \<and>
      res = last_result rs"
proof -
  let ?cs = "clients (pool pw)"
  have d: "distinct (map fst (enumerate 0 ?cs))" by (simp add: map_fst_enumerate)
  have r: "\<forall>i\<in>set (map fst (enumerate 0 ?cs)). i < length (status (pool pw))"
    by (simp add: map_fst_enumerate len)
  have c: "\<forall>ic\<in>set (enumerate 0 ?cs). (\<lambda>i. ?cs ! i) (fst ic) = snd ic"
    using enumerate_in_range [of _ ?cs] by blast
  from run have run': "Call_loop t method args (enumerate 0 ?cs) pw None = (pw', err, res)"
    by (simp add: pool_Call_def)
  from Call_loop_scan [OF d r c run'] obtain new rs where new:
    "attempts pw' = attempts pw @ new" "cooldowns pw' = cooldowns pw @ faulted new"
    "scan_ok (status (pool pw)) (map fst (enumerate 0 ?cs)) new"
    "err = (if new = [] then None else snd (last new))"
    "answers t method args (net pw) (map (\<lambda>x. ?cs ! fst x) new) = (net pw', rs)"
    "map snd new = map err_of rs" "res = last_result rs"
    by blast
  from new(3) have s: "scan_ok (status (pool pw)) [0..<length ?cs] new"
    by (simp add: map_fst_enumerate)
  have k: "idx \<notin> set (faulted new)" if "(idx, Some e) \<in> set new" "e = NotFound \<or> e = ErrNoResult" for idx e
  proof
    assume "idx \<in> set (faulted new)"
    from faulted_member [OF this] obtain x where x: "(idx, Some x) \<in> set new" "x \<noteq> NotFound" "x \<noteq> ErrNoResult"
      by blast
    from eq_key_imp_eq_value [OF scan_ok_distinct [OF s] that(1) x(1)] have "e = x" by simp
    with that(2) x(2,3) show False by blast
  qed
  from new(4) have l: "new \<noteq> [] \<longrightarrow> err = snd (last new)" by simp
  from new(1,2,5,6,7) s k l show ?thesis by blast
qed

text \<open>
  Claim C4, as stated, fails on a pool of two free endpoints of which the first answers
  \<open>NotFound\<close>: the second endpoint is tried as well, and \<open>Call\<close> returns nil and the result
  of the second endpoint, not \<open>NotFound\<close>.
\<close>

theorem Call_NotFound_tries_next_endpoint:
  "pool_Call example_transport (example_pool [0, 0] 2) ''eth_getCode'' [] =
     (\<lparr>pool = \<lparr>clients = [example_endpoint 0, example_endpoint 1], status = [1, 0]\<rparr>,
       cooldowns = [], net = (), attempts = [(0, Some NotFound), (1, None)]\<rparr>,
      None, Some ''ok'')"
proof -
  have u: "[0..<2] = [0, 1]" by (simp add: upt_rec)
  show ?thesis
    by (simp add: pool_Call_def example_pool_def example_endpoint_def CompareAndSwapInt64_def
        ETHClient_Call_def example_transport_def set_status_def StoreInt64_def u)
qed

theorem Call_sentinel_no_cooldown_scan_goes_on_witness:
  "length (status (pool (example_pool [0, 0] 2))) = length (clients (pool (example_pool [0, 0] 2))) \<and>
   (\<exists>new rs.
      attempts (fst (pool_Call example_transport (example_pool [0, 0] 2) ''eth_getCode'' [])) =
        attempts (example_pool [0, 0] 2) @ new \<and>
      map snd new = map err_of (rs :: (error + string) list) \<and>
      scan_ok (status (pool (example_pool [0, 0] 2))) [0..<length (clients (pool (example_pool [0, 0] 2)))] new \<and>
      cooldowns (fst (pool_Call example_transport (example_pool [0, 0] 2) ''eth_getCode'' [])) =
        cooldowns (example_pool [0, 0] 2) @ faulted new \<and>
      (\<forall>idx e. (idx, Some e) \<in> set new \<and> (e = NotFound \<or> e = ErrNoResult) \<longrightarrow> idx \<notin> set (faulted new)))"
proof -
  have len: "length (status (pool (example_pool [0, 0] 2))) = length (clients (pool (example_pool [0, 0] 2)))"
    by (simp add: example_pool_def)
  obtain pw' err and res :: "string option"
    where run: "pool_Call example_transport (example_pool [0, 0] 2) ''eth_getCode'' [] = (pw', err, res)"
    by (cases "pool_Call example_transport (example_pool [0, 0] 2) ''eth_getCode'' [] :: (unit pool_world \<times> error option \<times> string option)")
  from Call_sentinel_no_cooldown_scan_goes_on [OF len run] len show ?thesis
    unfolding run fst_conv by blast
qed

section \<open>Properties of the construction of the pool\<close>

lemma mset_insert_less: "mset (insert_less lt x ys) = add_mset x (mset ys)"
  by (induction ys) auto

lemma mset_sort_Slice: "mset (sort_Slice lt xs) = mset xs"
  by (induction xs) (auto simp: sort_Slice_def mset_insert_less)

lemma set_insert_less: "set (insert_less lt x ys) = insert x (set ys)"
  by (induction ys) auto

lemma sorted_insert_less:
  fixes f :: "'a \<Rightarrow> int"
  shows "sorted_wrt (\<lambda>a b. f a \<le> f b) ys \<Longrightarrow>
     sorted_wrt (\<lambda>a b. f a \<le> f b) (insert_less (\<lambda>a b. f a < f b) x ys)"
proof (induction ys)
  case Nil
  then show ?case by simp
next
  case (Cons y ys)
  show ?case
  proof (cases "f x < f y")
    case True
    with Cons.prems show ?thesis by (auto intro: order_trans less_imp_le)
  next
    case False
    with Cons show ?thesis by (auto simp: set_insert_less)
  qed
qed

lemma sorted_sort_Slice:
  fixes f :: "'a \<Rightarrow> int"
  shows "sorted_wrt (\<lambda>a b. f a \<le> f b) (sort_Slice (\<lambda>a b. f a < f b) xs)"
proof (induction xs)
  case Nil
  then show ?case by (simp add: sort_Slice_def)
next
  case (Cons x xs)
  then show ?case using sorted_insert_less [of f "sort_Slice (\<lambda>a b. f a < f b) xs" x]
    by (simp add: sort_Slice_def)
qed

lemma sorted_distinct_strict:
  fixes f :: "'a \<Rightarrow> int"
  assumes "sorted_wrt (\<lambda>a b. f a \<le> f b) xs" "distinct (map f xs)"
  shows "sorted_wrt (\<lambda>a b. f a < f b) xs"
proof -
  from assms(1) have "sorted (map f xs)" by (simp add: sorted_wrt_map)
  with assms(2) have "sorted_wrt (<) (map f xs)" by (simp add: strict_sorted_iff)
  then show ?thesis by (simp add: sorted_wrt_map)
qed

lemma mset_concat_map_perm:
  "mset xs = mset ys \<Longrightarrow> mset (concat (map g xs)) = mset (concat (map g ys))"
proof -
  assume eq: "mset xs = mset ys"
  have "\<And>zs. mset (concat (map g zs)) = (\<Sum>z\<in>#mset zs. mset (g z))"
  proof -
    fix zs show "mset (concat (map g zs)) = (\<Sum>z\<in>#mset zs. mset (g z))"
      by (induction zs) auto
  qed
  with eq show ?thesis by simp
qed

lemma concat_dialed_empty:
  "concat (map (dialed_clients probes urls) [0..<length urls]) = [] \<longleftrightarrow>
     (\<forall>i<length urls. isl (DialContext (probes i) (urls ! i)))"
proof -
  have "dialed_clients probes urls i = [] \<longleftrightarrow> isl (DialContext (probes i) (urls ! i))"
    if "i < length urls" for i
    using that by (cases "DialContext (probes i) (urls ! i)") (simp_all add: dialed_clients_def)
  then show ?thesis by auto
qed

text \<open>
  Claim C8. Whatever the order in which the dialling goroutines finish, a pool that
  \<open>SetupConnectionPool\<close> returns holds exactly the clients whose dial succeeded, those
  that failed being dropped, in ascending order of latency, strictly ascending when the
  latencies are distinct, with every status free; the only error it returns is
  \<open>no connection established\<close>, and it returns it exactly when no dial succeeded.
\<close>

theorem SetupConnectionPool_sorted:
  assumes "mset finished = mset [0..<length urls]"
  shows "(\<forall>p. SetupConnectionPool probes finished urls = Inr p \<longrightarrow>
            sorted_wrt (\<lambda>a b. latency a \<le> latency b) (clients p) \<and>
            (distinct (map latency (clients p)) \<longrightarrow> sorted_wrt (\<lambda>a b. latency a < latency b) (clients p)) \<and>
            mset (clients p) = mset (concat (map (dialed_clients probes urls) [0..<length urls])) \<and>
            status p = replicate (length (clients p)) 0) \<and>
         (\<forall>e. SetupConnectionPool probes finished urls = Inl e \<longrightarrow> e = Errorf ''no connection established'') \<and>
         (isl (SetupConnectionPool probes finished urls) \<longleftrightarrow>
            (\<forall>i<length urls. isl (DialContext (probes i) (urls ! i))))"
proof -
  define cs where "cs = concat (map (dialed_clients probes urls) finished)"
  define survivors where "survivors = concat (map (dialed_clients probes urls) [0..<length urls])"
  have ms: "mset cs = mset survivors"
    unfolding cs_def survivors_def using assms by (rule mset_concat_map_perm)
  then have emp: "cs = [] \<longleftrightarrow> survivors = []"
    by (metis mset_zero_iff)
  have unf: "SetupConnectionPool probes finished urls =
      (if cs \<noteq> [] then Inr (NewRpcConnectionPool (sort_Slice (\<lambda>a b. latency a < latency b) cs))
       else Inl (Errorf ''no connection established''))"
    by (simp add: SetupConnectionPool_def cs_def Let_def)
  have a: "sorted_wrt (\<lambda>a b. latency a \<le> latency b) (clients p) \<and>
            (distinct (map latency (clients p)) \<longrightarrow> sorted_wrt (\<lambda>a b. latency a < latency b) (clients p)) \<and>
            mset (clients p) = mset survivors \<and>
            status p = replicate (length (clients p)) 0"
    if "SetupConnectionPool probes finished urls = Inr p" for p
  proof -
    from that unf have p: "p = NewRpcConnectionPool (sort_Slice (\<lambda>a b. latency a < latency b) cs)"
      by (simp split: if_splits)
    have s: "sorted_wrt (\<lambda>a b. latency a \<le> latency b) (clients p)"
      unfolding p NewRpcConnectionPool_def using sorted_sort_Slice [of latency cs] by simp
    then have "distinct (map latency (clients p)) \<longrightarrow> sorted_wrt (\<lambda>a b. latency a < latency b) (clients p)"
      using sorted_distinct_strict [of latency "clients p"] by blast
    moreover have "mset (clients p) = mset survivors"
      unfolding p NewRpcConnectionPool_def using ms by (simp add: mset_sort_Slice)
    moreover have "status p = replicate (length (clients p)) 0"
      unfolding p NewRpcConnectionPool_def by simp
    ultimately show ?thesis using s by blast
  qed
  have b: "e = Errorf ''no connection established''"
    if "SetupConnectionPool probes finished urls = Inl e" for e
    using that unf by (simp split: if_splits)
  have c: "isl (SetupConnectionPool probes finished urls) \<longleftrightarrow>
            (\<forall>i<length urls. isl (DialContext (probes i) (urls ! i)))"
    using concat_dialed_empty [of probes urls] emp unf by (simp add: survivors_def)
  from a b c show ?thesis unfolding survivors_def by blast
qed

theorem SetupConnectionPool_sorted_witness:
  "mset [2, 0, 1] = mset [0..<length [''http://a'', ''http://b'', ''http://c'']] \<and>
   SetupConnectionPool example_probes [2, 0, 1] [''http://a'', ''http://b'', ''http://c''] =
     Inr \<lparr>clients = [\<lparr>url = ''http://b'', rpc_client = Some 1, networkId = ''1'', version = ''v'', latency = 10\<rparr>,
                    \<lparr>url = ''http://a'', rpc_client = Some 0, networkId = ''1'', version = ''v'', latency = 30\<rparr>],
          status = [0, 0]\<rparr> \<and>
   sorted_wrt (\<lambda>a b. latency a < latency b)
     [\<lparr>url = ''http://b'', rpc_client = Some 1, networkId = ''1'', version = ''v'', latency = 10\<rparr>,
      \<lparr>url = ''http://a'', rpc_client = Some 0, networkId = ''1'', version = ''v'', latency = 30\<rparr>]"
proof -
  let ?urls = "[''http://a'', ''http://b'', ''http://c'']"
  let ?p = "\<lparr>clients = [\<lparr>url = ''http://b'', rpc_client = Some 1, networkId = ''1'', version = ''v'', latency = 10\<rparr>,
                    \<lparr>url = ''http://a'', rpc_client = Some 0, networkId = ''1'', version = ''v'', latency = 30\<rparr>],
          status = [0, 0]\<rparr>"
  have u: "[0..<3] = [0, 1, 2]" by (simp add: upt_rec)
  have h: "mset [2, 0, 1] = mset [0..<length ?urls]"
    by (simp add: u)
  have run: "SetupConnectionPool example_probes [2, 0, 1] ?urls = Inr ?p"
    by (simp add: SetupConnectionPool_def dialed_clients_def DialContext_def connect_def
        example_probes_def sort_Slice_def NewRpcConnectionPool_def)
  note t = SetupConnectionPool_sorted [OF h, of example_probes]
  from t [THEN conjunct1, rule_format, OF run]
  have "distinct (map latency (clients ?p)) \<longrightarrow> sorted_wrt (\<lambda>a b. latency a < latency b) (clients ?p)"
    by blast
  then have "sorted_wrt (\<lambda>a b. latency a < latency b) (clients ?p)" by simp
  with h run show ?thesis by simp
qed

end
